theory Spec2Isabelle
  imports Main "HOL-Library.Log_Nat" "HOL-Library.Sublist"
begin

section \<open>Python values used by cmorph.py\<close>

text \<open>
  Exceptions are values. Only the exception classes that the modelled statements of
  \<open>cmorph.py\<close> can raise are listed; \<open>SystemExit\<close> carries the exit status given to
  \<open>exit\<close>, \<open>RequestException\<close> stands for any failure raised by the \<open>requests\<close>
  library, \<open>OSError\<close> for any failure of a filesystem call.
\<close>

datatype py_error =
    ZeroDivisionError
  | OverflowError
  | KeyError string
  | ValueError
  | IllegalMonthError int
  | FileNotFoundError
  | IsADirectoryError
  | OSError
  | RequestException
  | SystemExit int

type_synonym bytes = "char list"

subsection \<open>Strings: \<open>int(s)\<close>, \<open>"%.2d" % i\<close>, \<open>str.replace\<close>\<close>

definition is_digit :: "char \<Rightarrow> bool" where
  "is_digit c = (c \<in> set ''0123456789'')"

text \<open>The ASCII whitespace that \<open>int\<close> strips from both ends of its argument.\<close>

definition is_space :: "char \<Rightarrow> bool" where
  "is_space c = (c \<in> {CHR '' '', CHR 0x09, CHR 0x0A, CHR 0x0B, CHR 0x0C, CHR 0x0D})"

definition digit_val :: "char \<Rightarrow> int" where
  "digit_val c = int (of_char c) - 48"

definition dec_val :: "string \<Rightarrow> int" where
  "dec_val s = foldl (\<lambda>a c. 10 * a + digit_val c) 0 s"

definition strip :: "string \<Rightarrow> string" where
  "strip s = rev (dropWhile is_space (rev (dropWhile is_space s)))"

text \<open>
  The digit part of a decimal literal accepted by \<open>int\<close>: digits, with single
  underscores allowed between two digits.
\<close>

fun digit_groups :: "string \<Rightarrow> bool" where
  "digit_groups [] = False"
| "digit_groups [c] = is_digit c"
| "digit_groups (c # d # s) =
     (is_digit c \<and> (if d = CHR ''_'' then digit_groups s else digit_groups (d # s)))"

text \<open>
  \<open>int(s)\<close> for a \<open>str\<close> in base 10: surrounding whitespace is stripped, one sign is
  allowed, the rest must be digit groups; anything else raises \<open>ValueError\<close>.
  Characters are bytes here, so only ASCII digits and ASCII whitespace are covered.
\<close>

definition py_int :: "string \<Rightarrow> py_error + int" where
  "py_int s =
     (let t = strip s;
          neg = (t \<noteq> [] \<and> hd t = CHR ''-'');
          body = (if t \<noteq> [] \<and> (hd t = CHR ''-'' \<or> hd t = CHR ''+'') then tl t else t)
      in if digit_groups body
         then Inr ((if neg then - 1 else 1) * dec_val (filter (\<lambda>c. c \<noteq> CHR ''_'') body))
         else Inl ValueError)"

text \<open>The decimal digits of a natural number, most significant first.\<close>

fun dec :: "nat \<Rightarrow> string" where
  "dec n = (if n < 10 then [char_of (48 + n)]
            else dec (n div 10) @ [char_of (48 + n mod 10)])"

declare dec.simps [simp del]

text \<open>\<open>"%.2d" % i\<close>: the decimal digits, zero-padded on the left to at least two, after the sign.\<close>

definition fmt_2d :: "int \<Rightarrow> string" where
  "fmt_2d i =
     (let ds = dec (nat \<bar>i\<bar>);
          padded = replicate (2 - length ds) CHR ''0'' @ ds
      in if i < 0 then CHR ''-'' # padded else padded)"

text \<open>
  \<open>s.replace(old, new)\<close>: every non-overlapping occurrence of \<open>old\<close>, found from the
  left, is replaced; an empty \<open>old\<close> matches before every character and at the end.
\<close>

function str_replace :: "string \<Rightarrow> string \<Rightarrow> string \<Rightarrow> string" where
  "str_replace s old new =
     (if old = [] then new @ concat (map (\<lambda>c. c # new) s)
      else if s = [] then []
      else if prefix old s then new @ str_replace (drop (length old) s) old new
      else hd s # str_replace (tl s) old new)"
  by pat_completeness auto
termination
  by (relation "measure (\<lambda>(s, old, new). length s)") auto

declare str_replace.simps [simp del]

subsection \<open>The calendar module\<close>

text \<open>
  \<open>calendar.isleap\<close> and the second component of \<open>calendar.monthrange(year, month)\<close>
  of the standard library (Python 3.8 and later, where \<open>weekday\<close> accepts every year):
  \<open>mdays[month] + (month == February and isleap(year))\<close>, after the month check.
\<close>

definition isleap :: "int \<Rightarrow> bool" where
  "isleap year = (year mod 4 = 0 \<and> (year mod 100 \<noteq> 0 \<or> year mod 400 = 0))"

definition mdays :: "int list" where
  "mdays = [0, 31, 28, 31, 30, 31, 30, 31, 31, 30, 31, 30, 31]"

definition monthrange_ndays :: "int \<Rightarrow> int \<Rightarrow> py_error + int" where
  "monthrange_ndays year month =
     (if \<not> (1 \<le> month \<and> month \<le> 12) then Inl (IllegalMonthError month)
      else Inr (mdays ! nat month + (if month = 2 \<and> isleap year then 1 else 0)))"

subsection \<open>Floating point: \<open>int / int\<close> and \<open>float * int\<close>\<close>

text \<open>
  A finite binary64 value is represented by the rational number it denotes. \<open>binary64 x\<close>
  is the double nearest to \<open>x\<close> (ties to the even significand), with the 53-bit
  significand of the normal range, the fixed quantum \<open>2^-1074\<close> of the subnormal range,
  and \<open>None\<close> when the rounded magnitude leaves the finite range.
\<close>

definition pow2 :: "int \<Rightarrow> rat" where
  "pow2 e = 2 powi e"

text \<open>For \<open>x > 0\<close>: the exponent \<open>e\<close> with \<open>2^e \<le> x < 2^(e+1)\<close>.\<close>

definition ilog2 :: "rat \<Rightarrow> int" where
  "ilog2 x =
     (let d = bitlen (fst (quotient_of x)) - bitlen (snd (quotient_of x))
      in if pow2 d \<le> x then d else d - 1)"

definition round_half_even :: "rat \<Rightarrow> int" where
  "round_half_even x =
     (let f = \<lfloor>x\<rfloor>; r = x - of_int f
      in if r < 1 / 2 then f
         else if 1 / 2 < r then f + 1
         else if even f then f else f + 1)"

text \<open>The grid point nearest to a positive magnitude, before the range check.\<close>

definition nearest :: "rat \<Rightarrow> rat" where
  "nearest a =
     (let e = max (ilog2 a) (- 1022);
          u = pow2 (e - 52)
      in of_int (round_half_even (a / u)) * u)"

definition binary64 :: "rat \<Rightarrow> rat option" where
  "binary64 x =
     (if x = 0 then Some 0
      else let y = nearest \<bar>x\<bar>
           in if pow2 1024 \<le> y then None else Some (sgn x * y))"

text \<open>
  \<open>a / b\<close> on two \<open>int\<close>s: the correctly rounded quotient; \<open>ZeroDivisionError\<close> for a
  zero divisor, \<open>OverflowError\<close> when the quotient is too large for a float.
\<close>

definition int_truediv :: "int \<Rightarrow> int \<Rightarrow> py_error + rat" where
  "int_truediv a b =
     (if b = 0 then Inl ZeroDivisionError
      else case binary64 (of_int a / of_int b) of
             None \<Rightarrow> Inl OverflowError
           | Some q \<Rightarrow> Inr q)"

text \<open>
  \<open>x * n\<close> for a finite float \<open>x\<close> and an \<open>int\<close> \<open>n\<close> that converts exactly: the rounded
  product, \<open>None\<close> for an infinity (float multiplication does not raise).
\<close>

definition float_mul :: "rat \<Rightarrow> rat \<Rightarrow> rat option" where
  "float_mul x y = binary64 (x * y)"

section \<open>The world of one run\<close>

text \<open>
  \<open>requests\<close> responses carry the fields the script reads: the status code, the body
  text, the cookie jar, the header dictionary (case-insensitive, hence keyed by the
  lower-cased field name), the chunks that \<open>iter_content(chunk_size=1048576)\<close> yields
  and, when the stream breaks after them, the exception it raises.
\<close>

record response =
  status_code :: int
  resp_text :: string
  cookies :: string
  headers :: "string \<rightharpoonup> string"
  chunks :: "bytes list"
  stream_error :: "py_error option"

text \<open>
  What the run does to the outside is recorded in order: network requests, the staleness
  probe, directory creation, opening a file for writing, and the summary.
\<close>

datatype event =
    Post string "(string \<times> string) list"
  | Get string string
  | CheckMdt string
  | MakeDirs string
  | OpenWrite string
  | Summary "string list" "string list" "string list"

text \<open>
  The filesystem holds files with their bytes and directories; \<open>dir_size\<close> is the size
  that \<open>os.stat\<close> reports for a directory.
\<close>

record world =
  files :: "string \<rightharpoonup> bytes"
  dirs :: "string set"
  dir_size :: "string \<Rightarrow> nat"
  logged :: "string list"
  trace :: "event list"

text \<open>
  Everything the script reads but does not control: the process environment, the date, the
  remote server (whose answer may depend on the requests made so far), the operating
  system's verdict on creating a directory or opening a file, and \<open>check_mdt\<close>.

  \<open>check_mdt\<close> is imported from \<open>util.py\<close>, which is not part of the sources at hand. It
  is a parameter here: called with the open response, the local path and the logger, it
  answers whether the local copy is up to date (or raises) and may emit log lines; it
  reads the world and does not write files.
\<close>

record env =
  environ :: "string \<rightharpoonup> string"
  today :: string
  http_post :: "event list \<Rightarrow> string \<Rightarrow> (string \<times> string) list \<Rightarrow> py_error + response"
  http_get :: "event list \<Rightarrow> string \<Rightarrow> string \<Rightarrow> py_error + response"
  check_mdt :: "response \<Rightarrow> string \<Rightarrow> world \<Rightarrow> (py_error + bool) \<times> string list"
  makedirs_error :: "string \<Rightarrow> py_error option"
  open_error :: "string \<Rightarrow> py_error option"

record args =
  arg_year :: string
  arg_month :: "string list option"
  arg_debug :: bool
  arg_user :: string

definition record_event :: "event \<Rightarrow> world \<Rightarrow> world" where
  "record_event ev w = w\<lparr>trace := trace w @ [ev]\<rparr>"

text \<open>
  Modelled from the spec: \<open>set_log\<close> (\<open>util.py\<close>) is missing; the spec describes the log
  handle as a process-wide append-only sink with threshold info or debug, so
  \<open>data_log.info(msg)\<close> appends \<open>msg\<close> under either threshold.
\<close>

definition log_info :: "string \<Rightarrow> world \<Rightarrow> world" where
  "log_info msg w = w\<lparr>logged := logged w @ [msg]\<rparr>"

text \<open>
  Modelled from the spec: \<open>print_summary\<close> (\<open>util.py\<close>) is missing; the spec describes it
  as a side-effecting sink for the three outcome sequences with no return value. The call
  is recorded with its three arguments.
\<close>

definition print_summary :: "string list \<Rightarrow> string list \<Rightarrow> string list \<Rightarrow> world \<Rightarrow> world" where
  "print_summary updated new error w = record_event (Summary updated new error) w"

definition ascii_lower :: "char \<Rightarrow> char" where
  "ascii_lower c =
     (if 65 \<le> (of_char c :: nat) \<and> (of_char c :: nat) \<le> 90 then char_of (of_char c + (32::nat))
      else c)"

text \<open>\<open>r.headers[name]\<close>.\<close>

definition header_get :: "response \<Rightarrow> string \<Rightarrow> py_error + string" where
  "header_get r name =
     (case headers r (map ascii_lower name) of
        None \<Rightarrow> Inl (KeyError (map ascii_lower name))
      | Some v \<Rightarrow> Inr v)"

text \<open>\<open>os.path.exists\<close>, \<open>os.makedirs(path, exist_ok=True)\<close> and \<open>open(path, 'wb')\<close>.\<close>

definition path_exists :: "world \<Rightarrow> string \<Rightarrow> bool" where
  "path_exists w p = (files w p \<noteq> None \<or> p \<in> dirs w)"

definition makedirs :: "env \<Rightarrow> string \<Rightarrow> world \<Rightarrow> py_error + world" where
  "makedirs en p w =
     (case makedirs_error en p of
        Some e \<Rightarrow> Inl e
      | None \<Rightarrow> Inr (record_event (MakeDirs p) (w\<lparr>dirs := insert p (dirs w)\<rparr>)))"

definition open_wb :: "env \<Rightarrow> string \<Rightarrow> world \<Rightarrow> py_error + world" where
  "open_wb en p w =
     (if p \<in> dirs w then Inl IsADirectoryError
      else case open_error en p of
             Some e \<Rightarrow> Inl e
           | None \<Rightarrow> Inr (record_event (OpenWrite p) (w\<lparr>files := (files w)(p \<mapsto> [])\<rparr>)))"

definition write_bytes :: "string \<Rightarrow> bytes \<Rightarrow> world \<Rightarrow> world" where
  "write_bytes p chunk w =
     w\<lparr>files := (files w)(p \<mapsto> (case files w p of None \<Rightarrow> [] | Some old \<Rightarrow> old) @ chunk)\<rparr>"

section \<open>cmorph.py\<close>

text \<open>
  \<open>int(os.stat(filepath).st_size)\<close>: the number of bytes of a file, the reported size of
  a directory, \<open>FileNotFoundError\<close> when nothing is at the path.
\<close>

definition stat_size :: "world \<Rightarrow> string \<Rightarrow> py_error + int" where
  "stat_size w filepath =
     (case files w filepath of
        Some content \<Rightarrow> Inr (int (length content))
      | None \<Rightarrow>
          if filepath \<in> dirs w then Inr (int (dir_size w filepath))
          else Inl FileNotFoundError)"

text \<open>
  \<open>check_file_status\<close> (lines 76 to 86). The writes to the terminal are not modelled.
\<close>

definition check_file_status :: "world \<Rightarrow> string \<Rightarrow> int \<Rightarrow> py_error + string" where
  "check_file_status w filepath filesize =
     (case stat_size w filepath of
        Inl e \<Rightarrow> Inl e
      | Inr sz \<Rightarrow>
          (case int_truediv sz filesize of
             Inl e \<Rightarrow> Inl e
           | Inr q \<Rightarrow>
               (let percent_complete = float_mul q 100
                in if percent_complete = Some 100 then Inr ''complete''
                   else Inr ''incomplete'')))"

text \<open>\<open>authenticate\<close> (lines 88 to 99).\<close>

definition authenticate :: "env \<Rightarrow> string \<Rightarrow> world \<Rightarrow> world \<times> (py_error + response)" where
  "authenticate en username w =
     (case environ en ''RDAPSWD'' of
        None \<Rightarrow> (w, Inl (KeyError ''RDAPSWD''))
      | Some pswd \<Rightarrow>
          (let url = ''https://rda.ucar.edu/cgi-bin/login'';
               values = [(''email'', username), (''passwd'', pswd), (''action'', ''login'')];
               w1 = record_event (Post url values) w
           in case http_post en (trace w) url values of
                Inl e \<Rightarrow> (w1, Inl e)
              | Inr ret \<Rightarrow>
                  if status_code ret \<noteq> 200
                  then (log_info (resp_text ret) (log_info ''Bad Authentication'' w1),
                        Inl (SystemExit 1))
                  else (w1, Inr ret)))"

text \<open>
  The \<open>for\<close> loop of \<open>download_file\<close> (lines 111 to 114). The buffer of the file object is
  not modelled: the size seen by the check inside the loop is the number of bytes written
  so far. The status that check returns is dropped, as in the source.
\<close>

fun write_chunks :: "string \<Rightarrow> int \<Rightarrow> bytes list \<Rightarrow> world \<Rightarrow> world \<times> (py_error + unit)" where
  "write_chunks file_base filesize [] w = (w, Inr ())"
| "write_chunks file_base filesize (chunk # rest) w =
     (let w1 = write_bytes file_base chunk w
      in if 1048576 < filesize
         then (case check_file_status w1 file_base filesize of
                 Inl e \<Rightarrow> (w1, Inl e)
               | Inr _ \<Rightarrow> write_chunks file_base filesize rest w1)
         else write_chunks file_base filesize rest w1)"

text \<open>Lines 109 to 116 of \<open>download_file\<close>: open, stream, close, final check.\<close>

definition download_body ::
  "env \<Rightarrow> response \<Rightarrow> string \<Rightarrow> int \<Rightarrow> world \<Rightarrow> world \<times> (py_error + string)" where
  "download_body en req file_base filesize w =
     (case open_wb en file_base w of
        Inl e \<Rightarrow> (w, Inl e)
      | Inr w1 \<Rightarrow>
          (case write_chunks file_base filesize (chunks req) w1 of
             (w2, Inl e) \<Rightarrow> (w2, Inl e)
           | (w2, Inr _) \<Rightarrow>
               (case stream_error req of
                  Some e \<Rightarrow> (w2, Inl e)
                | None \<Rightarrow> (w2, check_file_status w2 file_base filesize))))"

text \<open>\<open>download_file\<close> (lines 102 to 116).\<close>

definition download_file ::
  "env \<Rightarrow> response \<Rightarrow> string \<Rightarrow> string \<Rightarrow> bool \<Rightarrow> world \<Rightarrow> world \<times> (py_error + string)" where
  "download_file en ret filename file_base update w =
     (let w1 = record_event (Get filename (cookies ret)) w
      in case http_get en (trace w) filename (cookies ret) of
           Inl e \<Rightarrow> (w1, Inl e)
         | Inr req \<Rightarrow>
             (case header_get req ''Content-length'' of
                Inl e \<Rightarrow> (w1, Inl e)
              | Inr v \<Rightarrow>
                  (case py_int v of
                     Inl e \<Rightarrow> (w1, Inl e)
                   | Inr filesize \<Rightarrow>
                       if update
                       then (let (r, msgs) = check_mdt en req file_base w1;
                                 w2 = record_event (CheckMdt file_base)
                                        (w1\<lparr>logged := logged w1 @ msgs\<rparr>)
                             in case r of
                                  Inl e \<Rightarrow> (w2, Inl e)
                                | Inr exists \<Rightarrow>
                                    if exists then (w2, Inr ''skip'')
                                    else download_body en req file_base filesize w2)
                       else download_body en req file_base filesize w1)))"

text \<open>\<open>get_filelist\<close> (lines 119 to 130); the accumulator is \<open>flist\<close>.\<close>

fun get_filelist_loop ::
  "env \<Rightarrow> string \<Rightarrow> string \<Rightarrow> string list \<Rightarrow> string list \<Rightarrow> world
   \<Rightarrow> world \<times> (py_error + string list)" where
  "get_filelist_loop en yr data_dir [] flist w = (w, Inr flist)"
| "get_filelist_loop en yr data_dir (mn # mns) flist w =
     (let fpath = ''v1.0/30min/8km/'' @ yr @ ''/'' @ mn @ ''/''
      in case makedirs en (data_dir @ ''/'' @ fpath) w of
           Inl e \<Rightarrow> (w, Inl e)
         | Inr w1 \<Rightarrow>
             (let fname = ''CMORPH_V1.0_ADJ_8km-30min_'' @ yr @ mn @ ''DD00.nc''
              in case py_int yr of
                   Inl e \<Rightarrow> (w1, Inl e)
                 | Inr y \<Rightarrow>
                     (case py_int mn of
                        Inl e \<Rightarrow> (w1, Inl e)
                      | Inr m \<Rightarrow>
                          (case monthrange_ndays y m of
                             Inl e \<Rightarrow> (w1, Inl e)
                           | Inr lastday \<Rightarrow>
                               (let days = map fmt_2d [1..lastday];
                                    fmonth = map (\<lambda>x. fpath @ str_replace fname ''DD'' x) days
                                in get_filelist_loop en yr data_dir mns (flist @ fmonth) w1)))))"

definition get_filelist ::
  "env \<Rightarrow> string \<Rightarrow> string list \<Rightarrow> string \<Rightarrow> world \<Rightarrow> world \<times> (py_error + string list)" where
  "get_filelist en yr mns data_dir w = get_filelist_loop en yr data_dir mns [] w"

text \<open>Lines 170 and 171 of \<open>main\<close>: where a planned path lives remotely and locally.\<close>

definition remote_url :: "string \<Rightarrow> string \<Rightarrow> string" where
  "remote_url dspath fpath = dspath @ ''cmorph_'' @ fpath"

definition local_path :: "string \<Rightarrow> string \<Rightarrow> string" where
  "local_path data_dir fpath = data_dir @ ''/'' @ fpath"

text \<open>
  Lines 170 to 177 of \<open>main\<close>: one target is looked up locally and handed to
  \<open>download_file\<close>; the result is the update flag with the status.
\<close>

definition process_target ::
  "env \<Rightarrow> response \<Rightarrow> string \<Rightarrow> string \<Rightarrow> string \<Rightarrow> world
   \<Rightarrow> world \<times> (py_error + bool \<times> string)" where
  "process_target en ret dspath data_dir fpath w =
     (let remote = remote_url dspath fpath;
          file_base = local_path data_dir fpath;
          exists = path_exists w file_base;
          update = (if exists then True else False)
      in case download_file en ret remote file_base update w of
           (w1, Inl e) \<Rightarrow> (w1, Inl e)
         | (w1, Inr status) \<Rightarrow> (w1, Inr (update, status)))"

text \<open>The download loop of \<open>main\<close> (lines 169 to 184) with its three lists.\<close>

fun download_all ::
  "env \<Rightarrow> response \<Rightarrow> string \<Rightarrow> string \<Rightarrow> string list
   \<Rightarrow> string list \<times> string list \<times> string list \<Rightarrow> world
   \<Rightarrow> world \<times> (py_error + string list \<times> string list \<times> string list)" where
  "download_all en ret dspath data_dir [] (updated, new, error) w =
     (w, Inr (updated, new, error))"
| "download_all en ret dspath data_dir (fpath # rest) (updated, new, error) w =
     (case process_target en ret dspath data_dir fpath w of
        (w1, Inl e) \<Rightarrow> (w1, Inl e)
      | (w1, Inr (update, status)) \<Rightarrow>
          if status = ''complete''
          then (if update
                then download_all en ret dspath data_dir rest (updated @ [fpath], new, error) w1
                else download_all en ret dspath data_dir rest (updated, new @ [fpath], error) w1)
          else if status = ''incomplete''
          then download_all en ret dspath data_dir rest (updated, new, error @ [fpath]) w1
          else download_all en ret dspath data_dir rest (updated, new, error) w1)"

text \<open>
  \<open>main\<close> (lines 133 to 186), after \<open>parse_input\<close>. \<open>set_log\<close> is taken to succeed; the
  log file path and the level it receives have no further use in the script.
\<close>

definition main :: "env \<Rightarrow> args \<Rightarrow> world \<Rightarrow> world \<times> (py_error + unit)" where
  "main en a w =
     (let yr = arg_year a;
          allmns = map fmt_2d [1..12];
          mns = (case arg_month a of None \<Rightarrow> allmns | Some ms \<Rightarrow> ms);
          root_dir = (case environ en ''AUSREFDIR'' of
                        None \<Rightarrow> ''/g/data/ia39/aus-ref-clim-data-nci'' | Some d \<Rightarrow> d);
          data_dir = root_dir @ ''/cmorph/data'';
          dspath = ''https://rda.ucar.edu/data/ds502.2/'';
          user = (case environ en ''USER'' of None \<Rightarrow> ''None'' | Some u \<Rightarrow> u);
          w0 = log_info (''Updated on '' @ today en @ '' by '' @ user) w
      in case authenticate en (arg_user a) w0 of
           (w1, Inl e) \<Rightarrow> (w1, Inl e)
         | (w1, Inr ret) \<Rightarrow>
             (case get_filelist en yr mns data_dir w1 of
                (w2, Inl e) \<Rightarrow> (w2, Inl e)
              | (w2, Inr flist) \<Rightarrow>
                  (case download_all en ret dspath data_dir flist ([], [], []) w2 of
                     (w3, Inl e) \<Rightarrow> (w3, Inl e)
                   | (w3, Inr (updated, new, error)) \<Rightarrow>
                       (print_summary updated new error w3, Inr ()))))"

section \<open>Observing a run\<close>

text \<open>The events a step adds to the trace of the world it started from.\<close>

definition new_events :: "world \<Rightarrow> world \<Rightarrow> event list" where
  "new_events w w' = drop (length (trace w)) (trace w')"

text \<open>
  The classifications the download loop hands out, in order: for every target it
  processes, the path, the update flag and the status that \<open>download_file\<close> returned.
  The script keeps only the three lists; this function replays the loop to name what
  each target received, and stops where the loop is stopped by an exception.
\<close>

fun outcomes ::
  "env \<Rightarrow> response \<Rightarrow> string \<Rightarrow> string \<Rightarrow> string list \<Rightarrow> world
   \<Rightarrow> (string \<times> bool \<times> string) list" where
  "outcomes en ret dspath data_dir [] w = []"
| "outcomes en ret dspath data_dir (fpath # rest) w =
     (case process_target en ret dspath data_dir fpath w of
        (w1, Inl e) \<Rightarrow> []
      | (w1, Inr (update, status)) \<Rightarrow>
          (fpath, update, status) # outcomes en ret dspath data_dir rest w1)"

section \<open>Reference definitions taken from the specification\<close>

text \<open>
  The number of calendar days of a month by the Gregorian rules, written down
  independently of \<open>calendar.monthrange\<close>.
\<close>

definition days_in_month :: "int \<Rightarrow> int \<Rightarrow> int" where
  "days_in_month y m =
     (if m = 2 then (if (y mod 4 = 0 \<and> y mod 100 \<noteq> 0) \<or> y mod 400 = 0 then 29 else 28)
      else if m = 4 \<or> m = 6 \<or> m = 9 \<or> m = 11 then 30
      else 31)"

text \<open>
  The path of one day's file below the local data directory, as the specification's
  filesystem layout gives it, and the remote path pattern as the specification words it.
\<close>

definition target_path :: "string \<Rightarrow> string \<Rightarrow> string \<Rightarrow> string" where
  "target_path yr mn dd =
     ''v1.0/30min/8km/'' @ yr @ ''/'' @ mn @ ''/CMORPH_V1.0_ADJ_8km-30min_'' @ yr @ mn @ dd @ ''00.nc''"

definition spec_remote_pattern :: "string \<Rightarrow> string \<Rightarrow> string \<Rightarrow> string" where
  "spec_remote_pattern yr mn dd =
     ''v1.0/30min/8km/'' @ yr @ ''/'' @ mn @ ''/cmorph_v1.0/30min/8km/'' @ yr @ ''/'' @ mn
       @ ''/CMORPH_V1.0_ADJ_8km-30min_'' @ yr @ mn @ dd @ ''00.nc''"

text \<open>
  The plan for one month: one path per calendar day, first day first. The year and the
  month enter the count through their integer values.
\<close>

definition int_of :: "string \<Rightarrow> int" where
  "int_of s = (case py_int s of Inl _ \<Rightarrow> 0 | Inr n \<Rightarrow> n)"

definition month_plan :: "string \<Rightarrow> string \<Rightarrow> string list" where
  "month_plan yr mn =
     map (\<lambda>d. target_path yr mn (fmt_2d d)) [1..days_in_month (int_of yr) (int_of mn)]"

text \<open>A four-digit year string and a two-digit month string naming a month.\<close>

definition valid_year :: "string \<Rightarrow> bool" where
  "valid_year yr = (length yr = 4 \<and> list_all is_digit yr)"

definition valid_month :: "string \<Rightarrow> bool" where
  "valid_month mn = (length mn = 2 \<and> list_all is_digit mn \<and> 1 \<le> dec_val mn \<and> dec_val mn \<le> 12)"

section \<open>Sample runs\<close>

text \<open>
  A server that answers every request with status 200 and a three-byte body in two
  chunks, declared as three bytes; a machine on which every directory and file can be
  created and on which the staleness probe finds every local copy up to date.
\<close>

definition sample_response :: response where
  "sample_response =
     \<lparr>status_code = 200, resp_text = ''ok'', cookies = ''session'',
      headers = [''content-length'' \<mapsto> ''3''], chunks = [''ab'', ''c''],
      stream_error = None\<rparr>"

definition sample_env :: env where
  "sample_env =
     \<lparr>environ = [''RDAPSWD'' \<mapsto> ''secret''], today = ''2022-06-28'',
      http_post = (\<lambda>_ _ _. Inr sample_response),
      http_get = (\<lambda>_ _ _. Inr sample_response),
      check_mdt = (\<lambda>_ _ _. (Inr True, [])),
      makedirs_error = (\<lambda>_. None), open_error = (\<lambda>_. None)\<rparr>"

definition empty_world :: world where
  "empty_world =
     \<lparr>files = Map.empty, dirs = {}, dir_size = (\<lambda>_. 4096), logged = [], trace = []\<rparr>"

text \<open>The empty world after the sample server's file was fetched for path \<open>p\<close> below \<open>/r\<close>.\<close>

definition fetched_world :: world where
  "fetched_world =
     empty_world\<lparr>files := [''/r/p'' \<mapsto> ''abc''],
                 trace := [Get ''d/cmorph_p'' ''session'', OpenWrite ''/r/p'']\<rparr>"


text \<open>
  A response without a content length, as a server using chunked transfer encoding sends
  it, and a world in which one target is already on disk.
\<close>

definition chunked_response :: response where
  "chunked_response = sample_response\<lparr>headers := Map.empty\<rparr>"

definition chunked_env :: env where
  "chunked_env = sample_env\<lparr>http_get := (\<lambda>_ _ _. Inr chunked_response)\<rparr>"


text \<open>
  Two worlds with one file each: an empty file, and a file of \<open>2^53 + 1\<close> bytes.
\<close>

definition empty_file_world :: world where
  "empty_file_world = empty_world\<lparr>files := [''f'' \<mapsto> []]\<rparr>"

definition huge_file_world :: world where
  "huge_file_world = empty_world\<lparr>files := [''f'' \<mapsto> replicate (2 ^ 53 + 1) CHR ''x'']\<rparr>"

text \<open>A login endpoint that answers 403, and the command line \<open>-y 2022 -m 02 -u user\<close>.\<close>

definition forbidden_env :: env where
  "forbidden_env =
     sample_env\<lparr>http_post :=
       (\<lambda>_ _ _. Inr (sample_response\<lparr>status_code := 403, resp_text := ''Forbidden''\<rparr>))\<rparr>"

text \<open>A login endpoint that answers 500 with the same body.\<close>

definition server_error_env :: env where
  "server_error_env =
     sample_env\<lparr>http_post :=
       (\<lambda>_ _ _. Inr (sample_response\<lparr>status_code := 500, resp_text := ''Forbidden''\<rparr>))\<rparr>"

definition sample_args :: args where
  "sample_args =
     \<lparr>arg_year = ''2022'', arg_month = Some [''02''], arg_debug = False, arg_user = ''user''\<rparr>"

text \<open>
  The sample machine after \<open>get_filelist\<close> has planned February 2022 below \<open>/d\<close>, the
  month being named \<open>k\<close> times on the command line.
\<close>

definition planned_world :: "nat \<Rightarrow> world" where
  "planned_world k =
     empty_world\<lparr>dirs := {''/d/v1.0/30min/8km/2022/02/''},
                 trace := replicate k (MakeDirs ''/d/v1.0/30min/8km/2022/02/'')\<rparr>"

section \<open>Rounding to binary64\<close>


lemma pow2_pos [simp]: "0 < pow2 e"
  by (simp add: pow2_def)

lemma pow2_add: "pow2 (a + b) = pow2 a * pow2 b"
  by (simp add: pow2_def power_int_add)

lemma pow2_diff: "pow2 (a - b) = pow2 a / pow2 b"
  by (simp add: pow2_def power_int_diff)

lemma pow2_mono: "a \<le> b \<Longrightarrow> pow2 a \<le> pow2 b"
  by (simp add: pow2_def power_int_increasing)

lemma pow2_strict_mono: "a < b \<Longrightarrow> pow2 a < pow2 b"
  by (simp add: pow2_def power_int_strict_increasing)

lemma pow2_le_iff: "pow2 a \<le> pow2 b \<longleftrightarrow> a \<le> b"
  using pow2_mono [of a b] pow2_strict_mono [of b a] by (auto simp: not_le [symmetric])

lemma pow2_less_iff: "pow2 a < pow2 b \<longleftrightarrow> a < b"
  using pow2_mono [of b a] pow2_strict_mono [of a b] by (auto simp: not_less [symmetric])

lemma pow2_nat: "0 \<le> e \<Longrightarrow> pow2 e = 2 ^ nat e"
  by (simp add: pow2_def power_int_nonneg_exp)

lemma pow2_0 [simp]: "pow2 0 = 1"
  by (simp add: pow2_def)

lemma pow2_succ: "pow2 (e + 1) = 2 * pow2 e"
  by (simp add: pow2_add pow2_nat)

lemma ilog2_bounds:
  assumes "0 < x"
  shows "pow2 (ilog2 x) \<le> x \<and> x < pow2 (ilog2 x + 1)"
proof -
  obtain p q where pq: "quotient_of x = (p, q)"
    by force
  have q: "0 < q"
    using quotient_of_denom_pos [OF pq] .
  have x: "x = of_int p / of_int q"
    using quotient_of_div [OF pq] .
  have p: "0 < p"
    using assms q by (simp add: x zero_less_divide_iff)
  define bp bq where "bp = bitlen p" and "bq = bitlen q"
  have b1: "1 \<le> bp" "1 \<le> bq"
    using p q by (simp_all add: bp_def bq_def bitlen_alt_def)
  have "2 ^ nat (bp - 1) \<le> p" "p < 2 ^ nat bp" "2 ^ nat (bq - 1) \<le> q" "q < 2 ^ nat bq"
    using bitlen_bounds [OF p] bitlen_bounds [OF q] by (simp_all add: bp_def bq_def)
  then have "(2::rat) ^ nat (bp - 1) \<le> of_int p" "of_int p < (2::rat) ^ nat bp"
       "(2::rat) ^ nat (bq - 1) \<le> of_int q" "of_int q < (2::rat) ^ nat bq"
    by (metis of_int_le_iff of_int_less_iff of_int_numeral of_int_power)+
  then have P: "pow2 (bp - 1) \<le> of_int p" "of_int p < pow2 bp"
        and Q: "pow2 (bq - 1) \<le> of_int q" "of_int q < pow2 bq"
    using b1 by (simp_all add: pow2_nat)
  have q': "(0::rat) < of_int q"
    using q by simp
  have "x < pow2 bp / pow2 (bq - 1)"
    unfolding x using frac_less [of "of_int p" "pow2 bp" "pow2 (bq - 1)" "of_int q"] P(2) Q(1) p
    by simp
  then have up: "x < pow2 (bp - bq + 1)"
    by (simp add: pow2_diff [symmetric] algebra_simps)
  have "pow2 (bp - 1) / pow2 bq < x"
    unfolding x using frac_less2 [of "pow2 (bp - 1)" "of_int p" "of_int q" "pow2 bq"] P(1) Q(2) q'
    by simp
  then have lo: "pow2 (bp - bq - 1) < x"
    by (simp add: pow2_diff [symmetric] algebra_simps)
  have d: "ilog2 x = (if pow2 (bp - bq) \<le> x then bp - bq else bp - bq - 1)"
    by (simp add: ilog2_def pq bp_def bq_def Let_def)
  show ?thesis
    using up lo by (auto simp: d not_le)
qed

lemma ilog2_unique:
  assumes "pow2 e \<le> x" "x < pow2 (e + 1)"
  shows "ilog2 x = e"
proof -
  have x: "0 < x"
    using assms(1) pow2_pos [of e] by linarith
  from ilog2_bounds [OF x] assms
  have "pow2 (ilog2 x) < pow2 (e + 1)" "pow2 e < pow2 (ilog2 x + 1)"
    by linarith+
  then show ?thesis
    by (simp add: pow2_less_iff)
qed

lemma rhe_error: "\<bar>of_int (round_half_even z) - z\<bar> \<le> 1 / 2"
proof -
  define f where "f = \<lfloor>z\<rfloor>"
  have f: "of_int f \<le> z" "z < of_int f + 1"
    unfolding f_def by linarith+
  have "round_half_even z =
          (if z - of_int f < 1 / 2 then f
           else if 1 / 2 < z - of_int f then f + 1
           else if even f then f else f + 1)"
    by (simp add: round_half_even_def Let_def f_def)
  with f show ?thesis
    by (auto simp: abs_if split: if_splits)
qed

lemma rhe_floor: "\<lfloor>z\<rfloor> \<le> round_half_even z"
  by (simp add: round_half_even_def Let_def)

lemma rhe_ge:
  assumes "of_int k \<le> z"
  shows "k \<le> round_half_even z"
proof -
  from assms have "k \<le> \<lfloor>z\<rfloor>"
    by (simp add: le_floor_iff)
  with rhe_floor [of z] show ?thesis
    by linarith
qed

lemma rhe_le:
  assumes "z \<le> of_int k"
  shows "round_half_even z \<le> k"
proof (cases "z = of_int k")
  case True
  then show ?thesis by (simp add: round_half_even_def)
next
  case False
  with assms have "z < of_int k" by simp
  then have "\<lfloor>z\<rfloor> < k" by (simp add: floor_less_iff)
  then show ?thesis by (simp add: round_half_even_def Let_def)
qed


lemma rhe_of_int [simp]: "round_half_even (of_int k) = k"
  by (simp add: round_half_even_def)

text \<open>The rounding of a positive number.\<close>

lemma nearest_pos:
  assumes x: "0 < x"
  defines "e \<equiv> max (ilog2 x) (- 1022)"
  shows "\<exists>m. nearest x = of_int m * pow2 (e - 52)"
    and "\<bar>nearest x - x\<bar> \<le> pow2 (e - 53)"
    and "- 1022 \<le> ilog2 x \<Longrightarrow> pow2 e \<le> nearest x \<and> nearest x \<le> pow2 (e + 1)"
    and "ilog2 x < - 1022 \<Longrightarrow> nearest x \<le> pow2 (- 1022)"
    and "0 \<le> nearest x"
proof -
  define u where "u = pow2 (e - 52)"
  define m where "m = round_half_even (x / u)"
  define y where "y = nearest x"
  have u: "0 < u"
    by (simp add: u_def)
  have y: "y = of_int m * u"
    by (simp add: y_def nearest_def Let_def e_def u_def m_def)
  from y show "\<exists>m. nearest x = of_int m * pow2 (e - 52)"
    unfolding y_def u_def by (rule exI)
  have "0 \<le> x / u"
    using x u by simp
  then have "0 \<le> m"
    unfolding m_def using rhe_ge [of 0 "x / u"] by simp
  then show "0 \<le> nearest x"
    using u by (simp add: y_def [symmetric] y)
  have "\<bar>of_int m - x / u\<bar> \<le> 1 / 2"
    unfolding m_def by (rule rhe_error)
  then have "\<bar>of_int m - x / u\<bar> * u \<le> 1 / 2 * u"
    using u by (simp only: mult_le_cancel_right_pos)
  moreover have "(of_int m - x / u) * u = y - x"
    using u by (simp add: y left_diff_distrib)
  then have "\<bar>of_int m - x / u\<bar> * u = \<bar>y - x\<bar>"
    using u abs_mult [of "of_int m - x / u" u] by (simp add: abs_of_pos)
  moreover have "1 / 2 * u = pow2 (e - 53)"
    using pow2_succ [of "e - 53"] by (simp add: u_def)
  ultimately show "\<bar>nearest x - x\<bar> \<le> pow2 (e - 53)"
    by (simp add: y_def)
  have u52: "pow2 52 * u = pow2 e" and u53: "pow2 53 * u = pow2 (e + 1)"
    by (simp_all add: u_def pow2_add [symmetric] ac_simps)
  have p52: "pow2 52 = of_int (2 ^ 52)" and p53: "pow2 53 = of_int (2 ^ 53)"
    by (simp_all add: pow2_nat)
  {
    assume n: "- 1022 \<le> ilog2 x"
    then have e: "e = ilog2 x"
      by (simp add: e_def)
    from ilog2_bounds [OF x] have "pow2 e \<le> x" "x < pow2 (e + 1)"
      by (simp_all add: e)
    then have "pow2 52 \<le> x / u" "x / u \<le> pow2 53"
      using u by (simp_all add: pos_le_divide_eq pos_divide_le_eq u52 u53)
    then have "2 ^ 52 \<le> m" "m \<le> 2 ^ 53"
      unfolding m_def p52 p53 by (simp_all only: rhe_ge rhe_le)
    then have "pow2 52 \<le> of_int m" "of_int m \<le> pow2 53"
      unfolding p52 p53 by (simp_all only: of_int_le_iff)
    then have "pow2 52 * u \<le> of_int m * u" "of_int m * u \<le> pow2 53 * u"
      using u by (simp_all only: mult_le_cancel_right_pos)
    then show "pow2 e \<le> nearest x \<and> nearest x \<le> pow2 (e + 1)"
      by (simp add: y_def [symmetric] y u52 u53)
  }
  {
    assume n: "ilog2 x < - 1022"
    then have e: "e = - 1022"
      by (simp add: e_def)
    from ilog2_bounds [OF x] n have "x < pow2 (ilog2 x + 1)" "pow2 (ilog2 x + 1) \<le> pow2 e"
      by (simp_all add: e pow2_le_iff)
    then have "x \<le> pow2 e"
      by linarith
    then have "x / u \<le> pow2 52"
      using u by (simp add: pos_divide_le_eq u52)
    then have "m \<le> 2 ^ 52"
      unfolding m_def p52 by (simp only: rhe_le)
    then have "of_int m \<le> pow2 52"
      unfolding p52 by (simp only: of_int_le_iff)
    then have "of_int m * u \<le> pow2 52 * u"
      using u by (simp only: mult_le_cancel_right_pos)
    then show "nearest x \<le> pow2 (- 1022)"
      by (simp add: y_def [symmetric] y u52 e)
  }
qed

lemma binary64_sign:
  assumes "binary64 x = Some y"
  shows "(x \<le> 0 \<longrightarrow> y \<le> 0) \<and> (0 \<le> x \<longrightarrow> 0 \<le> y)"
proof (cases "x = 0")
  case True
  with assms show ?thesis by (simp add: binary64_def)
next
  case False
  then have "0 < \<bar>x\<bar>" by simp
  from nearest_pos(5) [OF this] have n: "0 \<le> nearest \<bar>x\<bar>" .
  from assms False have y: "y = sgn x * nearest \<bar>x\<bar>"
    by (auto simp: binary64_def Let_def split: if_splits)
  show ?thesis
    using n False by (auto simp: y sgn_if mult_nonneg_nonpos2)
qed

lemma binary64_pos_eq:
  "0 < x \<Longrightarrow> binary64 x = (if pow2 1024 \<le> nearest x then None else Some (nearest x))"
  by (simp add: binary64_def Let_def)

lemma nearest_exact:
  assumes m: "2 ^ 52 \<le> m" "m < 2 ^ 53"
  shows "nearest (of_int m * pow2 (e - 52)) = of_int m * pow2 (e - 52) \<or> e < - 1022"
proof (cases "e < - 1022")
  case True
  then show ?thesis by simp
next
  case False
  define u where "u = pow2 (e - 52)"
  define x where "x = of_int m * u"
  have u: "0 < u"
    by (simp add: u_def)
  have u52: "pow2 52 * u = pow2 e" and u53: "pow2 53 * u = pow2 (e + 1)"
    by (simp_all add: u_def pow2_add [symmetric] ac_simps)
  have p52: "pow2 52 = of_int (2 ^ 52)" and p53: "pow2 53 = of_int (2 ^ 53)"
    by (simp_all add: pow2_nat)
  from m have "pow2 52 \<le> of_int m" "of_int m < pow2 53"
    unfolding p52 p53 by (simp_all only: of_int_le_iff of_int_less_iff)
  then have "pow2 52 * u \<le> x" "x < pow2 53 * u"
    unfolding x_def using u by (simp_all only: mult_le_cancel_right_pos mult_less_cancel_right_pos)
  then have "ilog2 x = e"
    unfolding u52 u53 by (rule ilog2_unique)
  then have "nearest x = of_int (round_half_even (x / u)) * u"
    using False by (simp add: nearest_def Let_def u_def)
  also have "x / u = of_int m"
    using u by (simp add: x_def)
  finally show ?thesis
    by (simp add: x_def u_def)
qed

lemma binary64_1: "binary64 1 = Some 1"
proof -
  have eq: "of_int (2 ^ 52) * pow2 (0 - 52) = 1"
    by (simp add: pow2_def power_int_minus_divide)
  have "nearest (of_int (2 ^ 52) * pow2 (0 - 52)) = of_int (2 ^ 52) * pow2 (0 - 52)
        \<or> (0::int) < - 1022"
    by (rule nearest_exact) simp_all
  then have n: "nearest 1 = 1"
    unfolding eq by simp
  have "pow2 0 < pow2 1024"
    by (rule pow2_strict_mono) simp
  then show ?thesis
    by (simp add: binary64_pos_eq n not_le)
qed

lemma binary64_100: "binary64 100 = Some 100"
proof -
  have eq: "of_int (25 * 2 ^ 48) * pow2 (6 - 52) = 100"
    by (simp add: pow2_def power_int_minus_divide)
  have "nearest (of_int (25 * 2 ^ 48) * pow2 (6 - 52)) = of_int (25 * 2 ^ 48) * pow2 (6 - 52)
        \<or> (6::int) < - 1022"
    by (rule nearest_exact) simp_all
  then have n: "nearest 100 = 100"
    unfolding eq by simp
  have "pow2 7 < pow2 1024"
    by (rule pow2_strict_mono) simp
  moreover have "100 < pow2 7"
    by (simp add: pow2_nat)
  ultimately show ?thesis
    by (simp add: binary64_pos_eq n not_le)
qed


lemma pow2_numeral_neg: "pow2 (- numeral k) = 1 / 2 ^ numeral k"
  by (simp add: pow2_def power_int_minus_divide)

lemma binary64_eq_1_close:
  assumes x: "0 < x" and b: "binary64 x = Some 1"
  shows "\<bar>1 - x\<bar> \<le> pow2 (- 53)"
proof -
  from x b have n: "nearest x = 1"
    by (simp add: binary64_pos_eq split: if_splits)
  show ?thesis
  proof (cases "ilog2 x < - 1022")
    case True
    from nearest_pos(4) [OF x True] have "1 \<le> pow2 (- 1022)"
      by (simp add: n)
    then have "pow2 0 \<le> pow2 (- 1022)"
      by simp
    then show ?thesis
      by (simp only: pow2_le_iff)
  next
    case False
    then have e: "max (ilog2 x) (- 1022) = ilog2 x"
      by simp
    from nearest_pos(3) [OF x] False have "pow2 (ilog2 x) \<le> pow2 0"
      by (simp add: e n)
    then have "ilog2 x \<le> 0"
      by (simp only: pow2_le_iff)
    then have "pow2 (ilog2 x - 53) \<le> pow2 (- 53)"
      by (simp add: pow2_le_iff)
    moreover from nearest_pos(2) [OF x] have "\<bar>1 - x\<bar> \<le> pow2 (ilog2 x - 53)"
      by (simp add: e n)
    ultimately show ?thesis
      by linarith
  qed
qed

lemma binary64_eq_100_close:
  assumes x: "0 < x" and b: "binary64 x = Some 100"
  shows "\<bar>100 - x\<bar> \<le> pow2 (- 47)"
proof -
  from x b have n: "nearest x = 100"
    by (simp add: binary64_pos_eq split: if_splits)
  have h: "(100::rat) < pow2 7" and h6: "pow2 6 < (100::rat)"
    by (simp_all add: pow2_nat)
  show ?thesis
  proof (cases "ilog2 x < - 1022")
    case True
    from nearest_pos(4) [OF x True] h6 have "pow2 6 < pow2 (- 1022)"
      by (simp add: n)
    then show ?thesis
      by (simp only: pow2_less_iff)
  next
    case False
    then have e: "max (ilog2 x) (- 1022) = ilog2 x"
      by simp
    from nearest_pos(3) [OF x] False h have "pow2 (ilog2 x) < pow2 7"
      by (simp add: e n)
    then have "ilog2 x < 7"
      by (simp only: pow2_less_iff)
    then have "pow2 (ilog2 x - 53) \<le> pow2 (- 47)"
      by (simp add: pow2_le_iff)
    moreover from nearest_pos(2) [OF x] have "\<bar>100 - x\<bar> \<le> pow2 (ilog2 x - 53)"
      by (simp add: e n)
    ultimately show ?thesis
      by linarith
  qed
qed

lemma int_scaled_near:
  fixes m k :: int
  assumes "\<bar>of_int m * u - 1\<bar> < c" and "of_int k * u = 1" and "c \<le> (u::rat)" and "0 < u"
  shows "m = k"
proof -
  have "of_int m * u - 1 = of_int (m - k) * u"
    using assms(2) by (simp add: left_diff_distrib)
  then have "\<bar>of_int m * u - 1\<bar> = \<bar>of_int (m - k)\<bar> * u"
    using assms(4) by (simp only: abs_mult abs_of_pos)
  with assms(1,3) have "\<bar>of_int (m - k)\<bar> * u < 1 * u"
    by simp
  then have "\<bar>of_int (m - k) :: rat\<bar> < 1"
    using assms(4) by (simp only: mult_less_cancel_right_pos)
  then have "\<bar>m - k\<bar> < 1"
    by (metis of_int_abs of_int_less_1_iff)
  then show ?thesis
    by simp
qed

lemma binary64_near_1:
  assumes x: "0 < x" and b: "binary64 x = Some q" and c: "\<bar>q - 1\<bar> < pow2 (- 53)"
  shows "q = 1"
proof -
  from x b have n: "nearest x = q"
    by (simp add: binary64_pos_eq split: if_splits)
  have p53: "pow2 (- 53) \<le> pow2 (- 1)"
    by (simp add: pow2_le_iff)
  have ph: "pow2 (- 1) = 1 / 2"
    by (simp add: pow2_def power_int_minus_divide)
  from c p53 have q: "pow2 (- 1) < q" "q < pow2 1"
    by (simp_all add: ph pow2_nat abs_if split: if_splits)
  have sub: "\<not> ilog2 x < - 1022"
  proof
    assume a: "ilog2 x < - 1022"
    from nearest_pos(4) [OF x a] q(1) have "pow2 (- 1) < pow2 (- 1022)"
      by (simp add: n)
    then show False
      by (simp only: pow2_less_iff)
  qed
  then have e: "max (ilog2 x) (- 1022) = ilog2 x"
    by simp
  from nearest_pos(3) [OF x] sub q have "pow2 (ilog2 x) < pow2 1" "pow2 (- 1) < pow2 (ilog2 x + 1)"
    by (simp_all add: e n)
  then have "ilog2 x < 1" "- 1 < ilog2 x + 1"
    by (simp_all only: pow2_less_iff)
  then have cases: "ilog2 x = 0 \<or> ilog2 x = - 1"
    by linarith
  from nearest_pos(1) [OF x] obtain m where m: "q = of_int m * pow2 (ilog2 x - 52)"
    by (auto simp: e n)
  from cases show ?thesis
  proof
    assume z: "ilog2 x = 0"
    have "m = 2 ^ 52"
    proof (rule int_scaled_near)
      show "\<bar>of_int m * pow2 (- 52) - 1\<bar> < pow2 (- 53)"
        using c m z by simp
      show "of_int (2 ^ 52) * pow2 (- 52) = 1"
        by (simp add: pow2_numeral_neg)
      show "pow2 (- 53) \<le> pow2 (- 52)"
        by (simp add: pow2_le_iff)
      show "0 < pow2 (- 52)"
        by simp
    qed
    then show ?thesis
      by (simp add: m z pow2_numeral_neg)
  next
    assume z: "ilog2 x = - 1"
    have "m = 2 ^ 53"
    proof (rule int_scaled_near)
      show "\<bar>of_int m * pow2 (- 53) - 1\<bar> < pow2 (- 53)"
        using c m z by simp
      show "of_int (2 ^ 53) * pow2 (- 53) = 1"
        by (simp add: pow2_numeral_neg)
      show "pow2 (- 53) \<le> pow2 (- 53)"
        by simp
      show "0 < pow2 (- 53)"
        by simp
    qed
    then show ?thesis
      by (simp add: m z pow2_numeral_neg)
  qed
qed

lemma binary64_no_overflow:
  assumes "\<bar>x\<bar> < pow2 1023"
  shows "\<exists>y. binary64 x = Some y"
proof (cases "x = 0")
  case True
  then show ?thesis by (simp add: binary64_def)
next
  case False
  then have a: "0 < \<bar>x\<bar>" by simp
  have "nearest \<bar>x\<bar> < pow2 1024"
  proof (cases "ilog2 \<bar>x\<bar> < - 1022")
    case True
    from nearest_pos(4) [OF a True] have "nearest \<bar>x\<bar> \<le> pow2 (- 1022)" .
    moreover have "pow2 (- 1022) < pow2 1024"
      by (rule pow2_strict_mono) simp
    ultimately show ?thesis by linarith
  next
    case False
    then have e: "max (ilog2 \<bar>x\<bar>) (- 1022) = ilog2 \<bar>x\<bar>"
      by simp
    from ilog2_bounds [OF a] assms have "pow2 (ilog2 \<bar>x\<bar>) < pow2 1023"
      by linarith
    then have "ilog2 \<bar>x\<bar> + 1 < 1024"
      by (simp add: pow2_less_iff)
    then have "pow2 (ilog2 \<bar>x\<bar> + 1) < pow2 1024"
      by (simp only: pow2_less_iff)
    moreover from nearest_pos(3) [OF a] False have "nearest \<bar>x\<bar> \<le> pow2 (ilog2 \<bar>x\<bar> + 1)"
      by (simp add: e)
    ultimately show ?thesis by linarith
  qed
  then show ?thesis
    using False by (simp add: binary64_def Let_def not_le)
qed


lemma percent_100_iff:
  fixes size filesize :: int
  assumes f: "filesize \<noteq> 0" "filesize < 2 ^ 53" and s: "0 \<le> size"
      and q: "binary64 (of_int size / of_int filesize) = Some q"
  shows "binary64 (q * 100) = Some 100 \<longleftrightarrow> size = filesize"
proof
  assume "size = filesize"
  with f q have "q = 1"
    by (simp add: binary64_1)
  then show "binary64 (q * 100) = Some 100"
    by (simp add: binary64_100)
next
  assume p: "binary64 (q * 100) = Some 100"
  define r :: rat where "r = of_int size / of_int filesize"
  show "size = filesize"
  proof (rule ccontr)
    assume ne: "size \<noteq> filesize"
    from binary64_sign [OF p] have "0 < q * 100"
      by (cases "q * 100 \<le> 0") auto
    then have q0: "0 < q"
      by simp
    from binary64_sign [OF q] q0 have "0 < r"
      unfolding r_def by (cases "of_int size / of_int filesize \<le> (0::rat)") auto
    with s have fpos: "0 < filesize"
      unfolding r_def by (simp add: zero_less_divide_iff)
    from binary64_eq_100_close [OF \<open>0 < q * 100\<close> p] have "\<bar>100 - q * 100\<bar> \<le> pow2 (- 47)" .
    moreover have "pow2 (- 47) < 100 * pow2 (- 53)"
      by (simp add: pow2_numeral_neg)
    ultimately have "\<bar>q - 1\<bar> < pow2 (- 53)"
      by (simp add: abs_if split: if_splits)
    from binary64_near_1 [OF \<open>0 < r\<close> q [folded r_def] this] have "q = 1" .
    with binary64_eq_1_close [OF \<open>0 < r\<close>] q have c: "\<bar>1 - r\<bar> \<le> pow2 (- 53)"
      by (simp add: r_def)
    have fr: "(0::rat) < of_int filesize"
      using fpos by simp
    have "1 - r = of_int (filesize - size) / of_int filesize"
      using fr by (simp add: r_def diff_divide_distrib)
    then have "\<bar>1 - r\<bar> = \<bar>of_int (filesize - size)\<bar> / of_int filesize"
      using fr by (simp only: abs_divide abs_of_pos)
    moreover have "1 \<le> \<bar>filesize - size\<bar>"
      using ne by linarith
    then have "(1::rat) \<le> \<bar>of_int (filesize - size)\<bar>"
      by (metis of_int_abs of_int_1_le_iff)
    ultimately have "1 / of_int filesize \<le> \<bar>1 - r\<bar>"
      using fr by (simp add: divide_right_mono)
    moreover have "of_int filesize < (2::rat) ^ 53"
      using f(2) by (metis of_int_less_iff of_int_numeral of_int_power)
    then have "1 / (2::rat) ^ 53 < 1 / of_int filesize"
      using fr by (simp add: frac_less2)
    ultimately have "pow2 (- 53) < \<bar>1 - r\<bar>"
      by (simp add: pow2_numeral_neg)
    with c show False
      by linarith
  qed
qed

lemma check_file_status_result:
  assumes c: "files w p = Some content"
      and f: "filesize \<noteq> 0" "filesize < 2 ^ 53"
      and l: "int (length content) < 2 ^ 1023"
  shows "check_file_status w p filesize =
           Inr (if int (length content) = filesize then ''complete'' else ''incomplete'')"
proof -
  define r :: rat where "r = of_int (int (length content)) / of_int filesize"
  have "1 \<le> \<bar>filesize\<bar>"
    using f(1) by linarith
  then have "(1::rat) \<le> \<bar>of_int filesize\<bar>"
    by (metis of_int_abs of_int_1_le_iff)
  then have "\<bar>r\<bar> \<le> of_int (int (length content))"
    unfolding r_def abs_divide
    by (simp add: divide_le_eq mult_le_cancel_left1)
  moreover have "of_int (int (length content)) < (2::rat) ^ 1023"
    using l by (metis of_int_less_iff of_int_numeral of_int_power)
  ultimately have "\<bar>r\<bar> < pow2 1023"
    by (simp add: pow2_nat)
  from binary64_no_overflow [OF this] obtain q where q: "binary64 r = Some q"
    by blast
  have "binary64 (q * 100) = Some 100 \<longleftrightarrow> int (length content) = filesize"
    by (rule percent_100_iff [OF f _ q [unfolded r_def]]) simp
  then show ?thesis
    using c f(1) q
    by (simp add: check_file_status_def stat_size_def int_truediv_def float_mul_def r_def)
qed



text \<open>A tie: \<open>1 + 2^-53\<close> lies halfway between two doubles and goes to the even one.\<close>

lemma binary64_tie: "binary64 (of_int (2 ^ 53 + 1) / of_int (2 ^ 53)) = Some 1"
proof -
  define x :: rat where "x = of_int (2 ^ 53 + 1) / of_int (2 ^ 53)"
  have "pow2 0 \<le> x" "x < pow2 (0 + 1)"
    by (simp_all add: x_def pow2_nat)
  then have i: "ilog2 x = 0"
    by (rule ilog2_unique)
  have m: "max (0::int) (- 1022) = 0"
    by simp
  have xq: "x / pow2 (0 - 52) = 9007199254740993 / 2"
    by (simp add: x_def pow2_numeral_neg)
  have "\<lfloor>(9007199254740993::rat) / 2\<rfloor> = 4503599627370496"
    by (rule floor_unique) simp_all
  then have r: "round_half_even (9007199254740993 / 2) = 4503599627370496"
    by (simp add: round_half_even_def Let_def)
  have "nearest x = of_int (round_half_even (x / pow2 (0 - 52))) * pow2 (0 - 52)"
    unfolding nearest_def Let_def i m by (rule refl)
  also have "\<dots> = 1"
    unfolding xq r by (simp add: pow2_numeral_neg)
  finally have n: "nearest x = 1" .
  have "0 < x"
    by (simp add: x_def)
  moreover have "pow2 0 < pow2 1024"
    by (rule pow2_strict_mono) simp
  ultimately show ?thesis
    unfolding x_def [symmetric] by (simp add: binary64_pos_eq n not_le)
qed

section \<open>What each function records and returns\<close>

lemma check_file_status_status:
  "check_file_status w p n = Inr st \<Longrightarrow> st = ''complete'' \<or> st = ''incomplete''"
  by (auto simp: check_file_status_def Let_def split: sum.splits if_splits)

lemma write_chunks_frame:
  "write_chunks fb n cs w = (w', r) \<Longrightarrow>
     trace w' = trace w \<and> dirs w' = dirs w \<and> logged w' = logged w"
proof (induction cs arbitrary: w)
  case Nil
  then show ?case by simp
next
  case (Cons c cs)
  then show ?case
    by (auto simp: Let_def write_bytes_def split: if_splits sum.splits)
qed

lemma write_chunks_present:
  "write_chunks fb n cs w = (w', r) \<Longrightarrow> files w fb \<noteq> None \<Longrightarrow> files w' fb \<noteq> None"
proof (induction cs arbitrary: w)
  case Nil
  then show ?case by simp
next
  case (Cons c cs)
  then show ?case
    by (auto simp: Let_def write_bytes_def split: if_splits sum.splits)
qed


lemma open_wb_file:
  "open_wb en fb w = Inr w1 \<Longrightarrow> files w1 fb = Some []"
  by (auto simp: open_wb_def record_event_def split: if_splits option.splits)

lemma download_body_events:
  "download_body en req fb n w = (w', r) \<Longrightarrow>
     (trace w' = trace w \<or> trace w' = trace w @ [OpenWrite fb]) \<and> logged w' = logged w"
  by (auto simp: download_body_def open_wb_def record_event_def
           split: sum.splits option.splits if_splits prod.splits dest!: write_chunks_frame)

lemma download_body_status:
  "download_body en req fb n w = (w', Inr st) \<Longrightarrow> st = ''complete'' \<or> st = ''incomplete''"
  by (auto simp: download_body_def split: sum.splits option.splits if_splits prod.splits
           dest: check_file_status_status)

lemma download_file_status:
  "download_file en ret fn fb upd w = (w', Inr st) \<Longrightarrow>
     st = ''skip'' \<and> upd \<or> st = ''complete'' \<or> st = ''incomplete''"
  by (auto simp: download_file_def Let_def split: sum.splits option.splits if_splits prod.splits
           dest: download_body_status)

lemma download_file_events:
  assumes "download_file en ret fn fb upd w = (w', r)"
  shows "new_events w w' = [Get fn (cookies ret)]
       \<or> new_events w w' = [Get fn (cookies ret), OpenWrite fb]
       \<or> upd \<and> (new_events w w' = [Get fn (cookies ret), CheckMdt fb]
              \<or> new_events w w' = [Get fn (cookies ret), CheckMdt fb, OpenWrite fb])"
  using assms
  by (auto simp: download_file_def Let_def record_event_def new_events_def
           split: sum.splits option.splits if_splits prod.splits dest!: download_body_events)

lemma download_file_trace:
  assumes "download_file en ret fn fb upd w = (w', r)"
  shows "trace w' = trace w @ new_events w w'"
  using assms
  by (auto simp: download_file_def Let_def record_event_def new_events_def
           split: sum.splits option.splits if_splits prod.splits dest!: download_body_events)


lemma process_target_eq:
  "process_target en ret dspath data_dir fpath w =
     (case download_file en ret (remote_url dspath fpath) (local_path data_dir fpath)
             (path_exists w (local_path data_dir fpath)) w of
        (w1, Inl e) \<Rightarrow> (w1, Inl e)
      | (w1, Inr status) \<Rightarrow> (w1, Inr (path_exists w (local_path data_dir fpath), status)))"
  by (auto simp: process_target_def Let_def split: prod.splits sum.splits)

lemma lower_content_length: "map ascii_lower ''Content-length'' = ''content-length''"
  by code_simp

lemma header_get_content_length:
  "header_get req ''Content-length'' =
     (case headers req ''content-length'' of
        None \<Rightarrow> Inl (KeyError ''content-length'') | Some v \<Rightarrow> Inr v)"
  unfolding header_get_def lower_content_length ..

lemma py_int_3: "py_int ''3'' = Inr 3"
  by code_simp

lemma py_int_0: "py_int ''0'' = Inr 0"
  by code_simp

section \<open>Skipping in update mode\<close>

text \<open>
  Claim C6. Whenever \<open>download_file\<close> returns \<open>'skip'\<close>, it was called in update
  mode, the only things it did were the GET and the staleness probe, and every local
  file, the one at the target's path included, holds exactly the bytes it held before.
\<close>

theorem skip_leaves_local_file_unmodified:
  assumes "download_file en ret filename file_base update w = (w', Inr ''skip'')"
  shows "update \<and> files w' = files w \<and> dirs w' = dirs w
         \<and> new_events w w' = [Get filename (cookies ret), CheckMdt file_base]"
  using assms
  by (auto simp: download_file_def Let_def record_event_def new_events_def
           split: sum.splits option.splits if_splits prod.splits
           dest: download_body_status)

theorem skip_leaves_local_file_unmodified_witness:
  "snd (download_file sample_env sample_response ''u'' ''f'' True
          (empty_world\<lparr>files := [''f'' \<mapsto> ''old'']\<rparr>)) = Inr ''skip''
   \<and> files (fst (download_file sample_env sample_response ''u'' ''f'' True
          (empty_world\<lparr>files := [''f'' \<mapsto> ''old'']\<rparr>))) ''f'' = Some ''old''"
proof -
  let ?w = "empty_world\<lparr>files := [''f'' \<mapsto> ''old'']\<rparr>"
  let ?r = "download_file sample_env sample_response ''u'' ''f'' True ?w"
  have s: "snd ?r = Inr ''skip''"
    by (simp add: download_file_def sample_env_def sample_response_def
          header_get_content_length py_int_3)
  then have "?r = (fst ?r, Inr ''skip'')"
    by (simp add: prod_eq_iff)
  from skip_leaves_local_file_unmodified [OF this] s show ?thesis
    by (simp add: empty_world_def)
qed

section \<open>Targets without a local file\<close>



lemma int_truediv_3_3: "int_truediv 3 3 = Inr 1"
  by (simp add: int_truediv_def binary64_1)

lemma float_mul_1_100: "float_mul 1 100 = Some 100"
  by (simp add: float_mul_def binary64_100)

lemma sample_fetch:
  "process_target sample_env sample_response ''d/'' ''/r'' ''p'' empty_world =
     (fetched_world, Inr (False, ''complete''))"
  by (simp add: process_target_def path_exists_def local_path_def remote_url_def empty_world_def
        fetched_world_def download_file_def sample_env_def sample_response_def
        header_get_content_length py_int_3 record_event_def download_body_def open_wb_def
        write_bytes_def check_file_status_def stat_size_def int_truediv_3_3 float_mul_1_100 Let_def)


section \<open>The content length in update mode\<close>



section \<open>The completeness check\<close>

lemma check_file_status_classified:
  assumes c: "check_file_status w p filesize = Inr st"
      and fc: "files w p = Some content"
      and f: "filesize \<noteq> 0" "filesize < 2 ^ 53"
  shows "st = (if int (length content) = filesize then ''complete'' else ''incomplete'')"
proof -
  from c fc f(1) obtain q where q: "binary64 (of_int (int (length content)) / of_int filesize) = Some q"
    by (auto simp: check_file_status_def stat_size_def int_truediv_def split: option.splits)
  have "binary64 (q * 100) = Some 100 \<longleftrightarrow> int (length content) = filesize"
    by (rule percent_100_iff [OF f _ q]) simp
  with c fc f(1) q show ?thesis
    by (auto simp: check_file_status_def stat_size_def int_truediv_def float_mul_def
             split: if_splits)
qed

lemma download_body_checked:
  "download_body en req fb n w = (w', Inr st) \<Longrightarrow> check_file_status w' fb n = Inr st"
  by (auto simp: download_body_def split: sum.splits option.splits prod.splits)

lemma download_body_present:
  assumes "download_body en req fb n w = (w', Inr st)"
  shows "\<exists>content. files w' fb = Some content"
proof -
  from assms obtain w1 r where o: "open_wb en fb w = Inr w1"
    and wc: "write_chunks fb n (chunks req) w1 = (w', r)"
    by (auto simp: download_body_def split: sum.splits option.splits prod.splits)
  from write_chunks_present [OF wc] open_wb_file [OF o] show ?thesis
    by auto
qed

text \<open>
  Claim C1, amended. When the declared content length is not zero and is below \<open>2^53\<close>,
  the completeness check answers \<open>'complete'\<close> exactly when the size on disk equals the
  declared content length and \<open>'incomplete'\<close> otherwise: for every file the check is run
  on (of fewer than \<open>2^1023\<close> bytes), and for every download that ends with a status
  from the check, judged on the file as the download left it.
\<close>

theorem completeness_check_compares_sizes:
  assumes "filesize \<noteq> 0" and "filesize < 2 ^ 53"
  shows "(\<forall>content. files w filepath = Some content \<longrightarrow> int (length content) < 2 ^ 1023 \<longrightarrow>
            check_file_status w filepath filesize
              = Inr (if int (length content) = filesize then ''complete'' else ''incomplete''))
       \<and> (\<forall>w' status. download_body en req filepath filesize w = (w', Inr status) \<longrightarrow>
            (\<exists>content. files w' filepath = Some content
               \<and> status = (if int (length content) = filesize then ''complete''
                            else ''incomplete'')))"
proof (intro conjI allI impI)
  fix content
  assume "files w filepath = Some content" "int (length content) < 2 ^ 1023"
  with assms show "check_file_status w filepath filesize
      = Inr (if int (length content) = filesize then ''complete'' else ''incomplete'')"
    by (intro check_file_status_result)
next
  fix w' status
  assume d: "download_body en req filepath filesize w = (w', Inr status)"
  from download_body_present [OF d] obtain content where fc: "files w' filepath = Some content"
    by blast
  from check_file_status_classified [OF download_body_checked [OF d] fc assms] fc
  show "\<exists>content. files w' filepath = Some content
          \<and> status = (if int (length content) = filesize then ''complete'' else ''incomplete'')"
    by blast
qed

theorem completeness_check_compares_sizes_witness:
  "(3::int) \<noteq> 0 \<and> (3::int) < 2 ^ 53
   \<and> check_file_status (empty_world\<lparr>files := [''f'' \<mapsto> ''abc'']\<rparr>) ''f'' 3 = Inr ''complete''
   \<and> check_file_status (empty_world\<lparr>files := [''f'' \<mapsto> ''ab'']\<rparr>) ''f'' 3 = Inr ''incomplete''"
proof -
  have h: "(3::int) \<noteq> 0" "(3::int) < 2 ^ 53"
    by simp_all
  note t = completeness_check_compares_sizes [OF h, THEN conjunct1, rule_format]
  have "check_file_status (empty_world\<lparr>files := [''f'' \<mapsto> ''abc'']\<rparr>) ''f'' 3 = Inr ''complete''"
    using t [of "empty_world\<lparr>files := [''f'' \<mapsto> ''abc'']\<rparr>" "''f''" "''abc''"] by simp
  moreover
  have "check_file_status (empty_world\<lparr>files := [''f'' \<mapsto> ''ab'']\<rparr>) ''f'' 3 = Inr ''incomplete''"
    using t [of "empty_world\<lparr>files := [''f'' \<mapsto> ''ab'']\<rparr>" "''f''" "''ab''"] by simp
  ultimately show ?thesis
    using h by blast
qed

text \<open>
  Claim C1 as stated fails in two places. With a declared length of zero and an empty
  file the sizes are equal, yet the check raises \<open>ZeroDivisionError\<close> and classifies
  nothing. With a declared length of \<open>2^53\<close> and \<open>2^53 + 1\<close> bytes on disk the sizes
  differ, yet the quotient rounds to \<open>1.0\<close>, the percentage is \<open>100.0\<close> and the check
  answers \<open>'complete'\<close>.
\<close>

theorem completeness_check_counterexample:
  "files empty_file_world ''f'' = Some []
   \<and> check_file_status empty_file_world ''f'' 0 = Inl ZeroDivisionError
   \<and> length (the (files huge_file_world ''f'')) = 9007199254740993
   \<and> check_file_status huge_file_world ''f'' 9007199254740992 = Inr ''complete''"
proof -
  have "int_truediv 9007199254740993 9007199254740992 = Inr 1"
    using binary64_tie by (simp add: int_truediv_def)
  then show ?thesis
    by (simp add: empty_file_world_def huge_file_world_def check_file_status_def stat_size_def
          int_truediv_def float_mul_1_100)
qed


section \<open>A declared content length of zero\<close>





section \<open>Failed authentication\<close>

lemma forbidden_run:
  "main forbidden_env sample_args empty_world
     = (empty_world\<lparr>logged := [''Updated on 2022-06-28 by None'', ''Bad Authentication'', ''Forbidden''],
                    trace := [Post ''https://rda.ucar.edu/cgi-bin/login''
                                [(''email'', ''user''), (''passwd'', ''secret''), (''action'', ''login'')]]\<rparr>,
        Inl (SystemExit 1))"
  by (simp add: main_def authenticate_def Let_def log_info_def record_event_def forbidden_env_def
        sample_env_def sample_args_def empty_world_def sample_response_def)

lemma server_error_run:
  "main server_error_env sample_args empty_world
     = (empty_world\<lparr>logged := [''Updated on 2022-06-28 by None'', ''Bad Authentication'', ''Forbidden''],
                    trace := [Post ''https://rda.ucar.edu/cgi-bin/login''
                                [(''email'', ''user''), (''passwd'', ''secret''), (''action'', ''login'')]]\<rparr>,
        Inl (SystemExit 1))"
  by (simp add: main_def authenticate_def Let_def log_info_def record_event_def server_error_env_def
        sample_env_def sample_args_def empty_world_def sample_response_def)

lemma no_403_in_log:
  "\<not> list_ex (sublist ''403'')
        [''Updated on 2022-06-28 by None'', ''Bad Authentication'', ''Forbidden'']"
  by code_simp

lemma no_500_in_log:
  "\<not> list_ex (sublist ''500'')
        [''Updated on 2022-06-28 by None'', ''Bad Authentication'', ''Forbidden'']"
  by code_simp

text \<open>
  Claim C7 as stated has the status logged. Lines 95 to 98 log the fixed line
  \<open>Bad Authentication\<close> and the response body, never the status code: a login answered
  with 403 leaves a log in which \<open>403\<close> occurs nowhere, and a login answered with 500 and
  the same body ends the run in the very same world.
\<close>

theorem status_code_is_not_logged_counterexample:
  "status_code (projr (http_post forbidden_env (trace empty_world)
       ''https://rda.ucar.edu/cgi-bin/login''
       [(''email'', ''user''), (''passwd'', ''secret''), (''action'', ''login'')])) = 403
   \<and> status_code (projr (http_post server_error_env (trace empty_world)
       ''https://rda.ucar.edu/cgi-bin/login''
       [(''email'', ''user''), (''passwd'', ''secret''), (''action'', ''login'')])) = 500
   \<and> logged (fst (main forbidden_env sample_args empty_world))
       = [''Updated on 2022-06-28 by None'', ''Bad Authentication'', ''Forbidden'']
   \<and> \<not> list_ex (sublist ''403'') (logged (fst (main forbidden_env sample_args empty_world)))
   \<and> \<not> list_ex (sublist ''500'') (logged (fst (main server_error_env sample_args empty_world)))
   \<and> main server_error_env sample_args empty_world = main forbidden_env sample_args empty_world"
proof -
  have "status_code (projr (http_post forbidden_env (trace empty_world)
       ''https://rda.ucar.edu/cgi-bin/login''
       [(''email'', ''user''), (''passwd'', ''secret''), (''action'', ''login'')])) = 403"
    by (simp add: forbidden_env_def)
  moreover have "status_code (projr (http_post server_error_env (trace empty_world)
       ''https://rda.ucar.edu/cgi-bin/login''
       [(''email'', ''user''), (''passwd'', ''secret''), (''action'', ''login'')])) = 500"
    by (simp add: server_error_env_def)
  moreover have "logged (fst (main forbidden_env sample_args empty_world))
       = [''Updated on 2022-06-28 by None'', ''Bad Authentication'', ''Forbidden'']"
    unfolding forbidden_run by simp
  moreover have "\<not> list_ex (sublist ''403'') (logged (fst (main forbidden_env sample_args empty_world)))"
    unfolding forbidden_run using no_403_in_log by simp
  moreover have "\<not> list_ex (sublist ''500'') (logged (fst (main server_error_env sample_args empty_world)))"
    unfolding server_error_run using no_500_in_log by simp
  moreover have "main server_error_env sample_args empty_world = main forbidden_env sample_args empty_world"
    unfolding forbidden_run server_error_run by (rule refl)
  ultimately show ?thesis
    by (intro conjI)
qed

text \<open>
  Claim C7, amended. When the password is set and the login POST comes back with a
  status code other than 200, \<open>main\<close> ends with \<open>SystemExit 1\<close>. By then the log has
  received, after the opening line of the run, the fixed line \<open>Bad Authentication\<close> and
  the response body; the status code itself is not logged. The only event of the run is
  the POST itself: no directory was created and no file requested, so the file plan was
  never built, and no summary was produced. Files and directories are as they were.
\<close>

theorem bad_authentication_aborts_the_run:
  assumes "environ en ''RDAPSWD'' = Some pswd"
      and "http_post en (trace w) ''https://rda.ucar.edu/cgi-bin/login''
             [(''email'', arg_user a), (''passwd'', pswd), (''action'', ''login'')] = Inr ret"
      and "status_code ret \<noteq> 200"
  shows "main en a w =
           (w\<lparr>logged := logged w @
                  [''Updated on '' @ today en @ '' by ''
                     @ (case environ en ''USER'' of None \<Rightarrow> ''None'' | Some u \<Rightarrow> u),
                   ''Bad Authentication'', resp_text ret],
               trace := trace w @
                  [Post ''https://rda.ucar.edu/cgi-bin/login''
                     [(''email'', arg_user a), (''passwd'', pswd), (''action'', ''login'')]]\<rparr>,
            Inl (SystemExit 1))"
  using assms
  by (simp add: main_def authenticate_def Let_def log_info_def record_event_def)

theorem bad_authentication_aborts_the_run_witness:
  "environ forbidden_env ''RDAPSWD'' = Some ''secret''
   \<and> http_post forbidden_env (trace empty_world) ''https://rda.ucar.edu/cgi-bin/login''
        [(''email'', arg_user sample_args), (''passwd'', ''secret''), (''action'', ''login'')]
       = Inr (sample_response\<lparr>status_code := 403, resp_text := ''Forbidden''\<rparr>)
   \<and> status_code (sample_response\<lparr>status_code := 403, resp_text := ''Forbidden''\<rparr>) \<noteq> 200
   \<and> snd (main forbidden_env sample_args empty_world) = Inl (SystemExit 1)
   \<and> logged (fst (main forbidden_env sample_args empty_world))
       = [''Updated on 2022-06-28 by None'', ''Bad Authentication'', ''Forbidden'']
   \<and> trace (fst (main forbidden_env sample_args empty_world))
       = [Post ''https://rda.ucar.edu/cgi-bin/login''
            [(''email'', ''user''), (''passwd'', ''secret''), (''action'', ''login'')]]"
proof -
  have h1: "environ forbidden_env ''RDAPSWD'' = Some ''secret''"
    by (simp add: forbidden_env_def sample_env_def)
  have h2: "http_post forbidden_env (trace empty_world) ''https://rda.ucar.edu/cgi-bin/login''
        [(''email'', arg_user sample_args), (''passwd'', ''secret''), (''action'', ''login'')]
       = Inr (sample_response\<lparr>status_code := 403, resp_text := ''Forbidden''\<rparr>)"
    by (simp add: forbidden_env_def)
  have h3: "status_code (sample_response\<lparr>status_code := 403, resp_text := ''Forbidden''\<rparr>) \<noteq> 200"
    by simp
  note t = bad_authentication_aborts_the_run [OF h1 h2 h3]
  have "snd (main forbidden_env sample_args empty_world) = Inl (SystemExit 1)"
    by (simp add: t)
  moreover have "logged (fst (main forbidden_env sample_args empty_world))
       = [''Updated on 2022-06-28 by None'', ''Bad Authentication'', ''Forbidden'']"
    unfolding t by (simp add: empty_world_def forbidden_env_def sample_env_def)
  moreover have "trace (fst (main forbidden_env sample_args empty_world))
       = [Post ''https://rda.ucar.edu/cgi-bin/login''
            [(''email'', ''user''), (''passwd'', ''secret''), (''action'', ''login'')]]"
    unfolding t by (simp add: empty_world_def sample_args_def)
  ultimately show ?thesis
    using h1 h2 h3 by (intro conjI)
qed

section \<open>Strings accepted by \<open>int\<close> and the file name template\<close>

lemma set_dropWhile_sub: "set xs \<subseteq> {c. P c} \<union> set (dropWhile P xs)"
proof -
  have "set xs = set (takeWhile P xs) \<union> set (dropWhile P xs)"
    by (metis set_append takeWhile_dropWhile_id)
  then show ?thesis
    by (auto dest: set_takeWhileD)
qed

lemma set_strip_sub: "set s \<subseteq> {c. is_space c} \<union> set (strip s)"
proof -
  have "set s \<subseteq> {c. is_space c} \<union> set (dropWhile is_space s)"
    by (rule set_dropWhile_sub)
  moreover have "set (rev (dropWhile is_space s))
                  \<subseteq> {c. is_space c} \<union> set (dropWhile is_space (rev (dropWhile is_space s)))"
    by (rule set_dropWhile_sub)
  ultimately show ?thesis
    by (auto simp: strip_def)
qed

lemma digit_groups_chars: "digit_groups b \<Longrightarrow> c \<in> set b \<Longrightarrow> is_digit c \<or> c = CHR ''_''"
  by (induction b rule: digit_groups.induct) (auto split: if_splits)

lemma py_int_chars:
  assumes "py_int s = Inr n" and "c \<in> set s"
  shows "is_space c \<or> is_digit c \<or> c = CHR ''_'' \<or> c = CHR ''+'' \<or> c = CHR ''-''"
proof (cases "is_space c")
  case True
  then show ?thesis by simp
next
  case False
  with assms(2) set_strip_sub [of s] have c: "c \<in> set (strip s)"
    by auto
  define t where "t = strip s"
  define body where "body = (if t \<noteq> [] \<and> (hd t = CHR ''-'' \<or> hd t = CHR ''+'') then tl t else t)"
  from assms(1) have g: "digit_groups body"
    by (auto simp: py_int_def Let_def t_def body_def split: if_splits)
  have "set t \<subseteq> {CHR ''-'', CHR ''+''} \<union> set body"
    by (cases t) (auto simp: body_def)
  with c have "c = CHR ''-'' \<or> c = CHR ''+'' \<or> c \<in> set body"
    by (auto simp: t_def)
  with digit_groups_chars [OF g] show ?thesis
    by auto
qed

lemma py_int_plain:
  assumes "py_int s = Inr n"
  shows "CHR ''D'' \<notin> set s" and "CHR ''/'' \<notin> set s"
  using py_int_chars [OF assms, of "CHR ''D''"] py_int_chars [OF assms, of "CHR ''/''"]
  by (auto simp: is_space_def is_digit_def)

lemma str_replace_Nil: "str_replace [] ''DD'' x = []"
  by (simp add: str_replace.simps)

lemma str_replace_other:
  "c \<noteq> CHR ''D'' \<Longrightarrow> str_replace (c # s) ''DD'' x = c # str_replace s ''DD'' x"
  by (subst str_replace.simps) simp

lemma str_replace_D_other:
  "c \<noteq> CHR ''D'' \<Longrightarrow>
     str_replace (CHR ''D'' # c # s) ''DD'' x = CHR ''D'' # str_replace (c # s) ''DD'' x"
  by (subst str_replace.simps) simp

lemma str_replace_DD:
  "str_replace (CHR ''D'' # CHR ''D'' # s) ''DD'' x = x @ str_replace s ''DD'' x"
  by (subst str_replace.simps) simp

lemma str_replace_plain:
  "CHR ''D'' \<notin> set p \<Longrightarrow> str_replace (p @ s) ''DD'' x = p @ str_replace s ''DD'' x"
  by (induction p) (auto simp: str_replace_other)

lemma fname_replace:
  assumes "CHR ''D'' \<notin> set yr" and "CHR ''D'' \<notin> set mn"
  shows "str_replace (''CMORPH_V1.0_ADJ_8km-30min_'' @ yr @ mn @ ''DD00.nc'') ''DD'' x
           = ''CMORPH_V1.0_ADJ_8km-30min_'' @ yr @ mn @ x @ ''00.nc''"
proof -
  have "str_replace ((yr @ mn) @ ''DD00.nc'') ''DD'' x = (yr @ mn) @ x @ ''00.nc''"
    using assms
    by (simp add: str_replace_plain str_replace_DD str_replace_other str_replace_Nil
             del: append_assoc)
  then have t: "str_replace (yr @ mn @ ''DD00.nc'') ''DD'' x = yr @ mn @ x @ ''00.nc''"
    by simp
  have "str_replace (''CMORPH_V1.0_A'' @ CHR ''D'' # ''J_8km-30min_'' @ yr @ mn @ ''DD00.nc'') ''DD'' x
          = ''CMORPH_V1.0_A'' @ CHR ''D'' # ''J_8km-30min_'' @ yr @ mn @ x @ ''00.nc''"
    by (simp add: str_replace_other str_replace_D_other t)
  then show ?thesis
    by simp
qed

section \<open>The plan that \<open>get_filelist\<close> builds\<close>

lemma monthrange_days:
  assumes "1 \<le> m" and "m \<le> 12"
  shows "monthrange_ndays y m = Inr (days_in_month y m)"
proof -
  from assms have "m = 1 \<or> m = 2 \<or> m = 3 \<or> m = 4 \<or> m = 5 \<or> m = 6 \<or> m = 7 \<or> m = 8 \<or> m = 9
      \<or> m = 10 \<or> m = 11 \<or> m = 12"
    by arith
  then show ?thesis
    by (elim disjE) (auto simp: monthrange_ndays_def days_in_month_def mdays_def isleap_def)
qed

lemma monthrange_ok:
  "monthrange_ndays y m = Inr n \<Longrightarrow> 1 \<le> m \<and> m \<le> 12 \<and> n = days_in_month y m"
  using monthrange_days [of m y] by (auto simp: monthrange_ndays_def split: if_splits)

lemma days_in_month_range: "28 \<le> days_in_month y m \<and> days_in_month y m \<le> 31"
  by (simp add: days_in_month_def)

lemma fmonth_eq:
  assumes "py_int yr = Inr y" and "py_int mn = Inr m"
  shows "map (\<lambda>x. (''v1.0/30min/8km/'' @ yr @ ''/'' @ mn @ ''/'')
                   @ str_replace (''CMORPH_V1.0_ADJ_8km-30min_'' @ yr @ mn @ ''DD00.nc'') ''DD'' x)
           (map fmt_2d [1..days_in_month y m]) = month_plan yr mn"
  unfolding fname_replace [OF py_int_plain(1) [OF assms(1)] py_int_plain(1) [OF assms(2)]]
  by (simp add: month_plan_def int_of_def target_path_def assms)

lemma get_filelist_loop_result:
  "get_filelist_loop en yr data_dir mns flist w = (w', Inr res) \<Longrightarrow>
     res = flist @ concat (map (month_plan yr) mns)
     \<and> (\<forall>mn\<in>set mns. \<exists>m. py_int mn = Inr m \<and> 1 \<le> m \<and> m \<le> 12)
     \<and> (mns \<noteq> [] \<longrightarrow> (\<exists>y. py_int yr = Inr y))"
proof (induction mns arbitrary: flist w)
  case Nil
  then show ?case by simp
next
  case (Cons mn mns)
  let ?fpath = "''v1.0/30min/8km/'' @ yr @ ''/'' @ mn @ ''/''"
  from Cons.prems obtain w1 y m lastday where
        mk: "makedirs en (data_dir @ ''/'' @ ?fpath) w = Inr w1"
    and y: "py_int yr = Inr y" and m: "py_int mn = Inr m"
    and r: "monthrange_ndays y m = Inr lastday"
    and rest: "get_filelist_loop en yr data_dir mns
                 (flist @ map (\<lambda>x. ?fpath @ str_replace (''CMORPH_V1.0_ADJ_8km-30min_'' @ yr @ mn @ ''DD00.nc'') ''DD'' x)
                           (map fmt_2d [1..lastday])) w1 = (w', Inr res)"
    by (auto simp: Let_def split: sum.splits)
  from monthrange_ok [OF r] have mr: "1 \<le> m" "m \<le> 12" "lastday = days_in_month y m"
    by simp_all
  from Cons.IH [OF rest] fmonth_eq [OF y m] mr y m show ?case
    by auto
qed

lemma get_filelist_loop_succeeds:
  assumes "py_int yr = Inr y"
      and "\<forall>mn\<in>set mns. (\<exists>m. py_int mn = Inr m \<and> 1 \<le> m \<and> m \<le> 12)
             \<and> makedirs_error en (data_dir @ ''/v1.0/30min/8km/'' @ yr @ ''/'' @ mn @ ''/'') = None"
  shows "\<exists>w'. get_filelist_loop en yr data_dir mns flist w
                = (w', Inr (flist @ concat (map (month_plan yr) mns)))
              \<and> files w' = files w \<and> logged w' = logged w"
  using assms(2)
proof (induction mns arbitrary: flist w)
  case Nil
  then show ?case by simp
next
  case (Cons mn mns)
  from Cons.prems obtain m where m: "py_int mn = Inr m" "1 \<le> m" "m \<le> 12"
    and mk: "makedirs_error en (data_dir @ ''/v1.0/30min/8km/'' @ yr @ ''/'' @ mn @ ''/'') = None"
    by auto
  let ?d = "data_dir @ ''/v1.0/30min/8km/'' @ yr @ ''/'' @ mn @ ''/''"
  let ?w1 = "record_event (MakeDirs ?d) (w\<lparr>dirs := insert ?d (dirs w)\<rparr>)"
  from Cons.prems have "\<forall>mn\<in>set mns. (\<exists>m. py_int mn = Inr m \<and> 1 \<le> m \<and> m \<le> 12)
             \<and> makedirs_error en (data_dir @ ''/v1.0/30min/8km/'' @ yr @ ''/'' @ mn @ ''/'') = None"
    by simp
  from Cons.IH [OF this, of "flist @ month_plan yr mn" ?w1]
  obtain w' where w': "get_filelist_loop en yr data_dir mns (flist @ month_plan yr mn) ?w1
                = (w', Inr ((flist @ month_plan yr mn) @ concat (map (month_plan yr) mns)))"
                "files w' = files ?w1" "logged w' = logged ?w1"
    by blast
  have "get_filelist_loop en yr data_dir (mn # mns) flist w
          = get_filelist_loop en yr data_dir mns (flist @ month_plan yr mn) ?w1"
    using assms(1) m mk monthrange_days [OF m(2,3), of y] fmonth_eq [OF assms(1) m(1)]
    by (simp add: makedirs_def Let_def)
  with w' show ?case
    by (simp add: record_event_def)
qed


lemma digit_plain:
  "is_digit c \<Longrightarrow> \<not> is_space c \<and> c \<noteq> CHR ''-'' \<and> c \<noteq> CHR ''+'' \<and> c \<noteq> CHR ''_''"
  by (auto simp: is_digit_def is_space_def)

lemma digits_strip:
  assumes "s \<noteq> []" and "list_all is_digit s"
  shows "strip s = s"
proof -
  from assms have "is_digit (hd s)" "is_digit (last s)"
    by (simp_all add: list_all_iff)
  then have "\<not> is_space (hd s)" "\<not> is_space (hd (rev s))"
    using assms(1) by (simp_all add: digit_plain hd_rev)
  then have "dropWhile is_space s = s" "dropWhile is_space (rev s) = rev s"
    by (simp_all add: dropWhile_eq_self_iff)
  then show ?thesis
    by (simp add: strip_def)
qed

lemma digits_groups: "s \<noteq> [] \<Longrightarrow> list_all is_digit s \<Longrightarrow> digit_groups s"
  by (induction s rule: digit_groups.induct) (auto simp: digit_plain)

lemma py_int_digits:
  assumes "s \<noteq> []" and "list_all is_digit s"
  shows "py_int s = Inr (dec_val s)"
proof -
  from assms have "is_digit (hd s)"
    by (simp add: list_all_iff)
  then have h: "hd s \<noteq> CHR ''-''" "hd s \<noteq> CHR ''+''"
    by (simp_all add: digit_plain)
  have "filter (\<lambda>c. c \<noteq> CHR ''_'') s = s"
    using assms(2) by (auto simp: list_all_iff digit_plain intro: filter_True)
  then show ?thesis
    using assms h by (simp add: py_int_def digits_strip digits_groups)
qed

lemma valid_year_int: "valid_year yr \<Longrightarrow> py_int yr = Inr (dec_val yr)"
  by (rule py_int_digits) (auto simp: valid_year_def)

lemma valid_month_int:
  "valid_month mn \<Longrightarrow> py_int mn = Inr (dec_val mn) \<and> 1 \<le> dec_val mn \<and> dec_val mn \<le> 12"
  using py_int_digits [of mn] by (cases mn) (auto simp: valid_month_def)

lemma distinct_days_31: "distinct (map fmt_2d [1..31])"
  by code_simp

lemma distinct_days:
  assumes "n \<le> 31"
  shows "distinct (map fmt_2d [1..n])"
proof (cases "1 \<le> n")
  case True
  with assms have "[1..31] = [1..n] @ [n + 1..31]"
    by (rule upto_split2 [of 1 n 31, rotated 1])
  with distinct_days_31 show ?thesis
    by simp
next
  case False
  then show ?thesis by simp
qed

lemma distinct_month_plan: "distinct (month_plan yr mn)"
proof -
  let ?a = "''v1.0/30min/8km/'' @ yr @ ''/'' @ mn @ ''/CMORPH_V1.0_ADJ_8km-30min_'' @ yr @ mn"
  let ?n = "days_in_month (int_of yr) (int_of mn)"
  have "month_plan yr mn = map (\<lambda>x. ?a @ x @ ''00.nc'') (map fmt_2d [1..?n])"
    by (simp add: month_plan_def target_path_def)
  moreover have "inj (\<lambda>x. ?a @ x @ ''00.nc'')"
    by (rule injI) simp
  moreover have "distinct (map fmt_2d [1..?n])"
    by (rule distinct_days) (simp add: days_in_month_range)
  ultimately show ?thesis
    by (simp only: distinct_map) (blast intro: inj_on_subset)
qed

lemma takeWhile_upto_char:
  "c \<notin> set a \<Longrightarrow> takeWhile (\<lambda>x. x \<noteq> c) (a @ c # r) = a"
  by (induction a) auto

lemma split_at_char:
  assumes "c \<notin> set a" and "c \<notin> set b" and "a @ c # r = b @ c # r'"
  shows "a = b"
  using takeWhile_upto_char [OF assms(1), of r] takeWhile_upto_char [OF assms(2), of r'] assms(3)
  by simp

lemma target_path_month:
  assumes "target_path yr mn a = target_path yr mn' b"
      and "CHR ''/'' \<notin> set mn" and "CHR ''/'' \<notin> set mn'"
  shows "mn = mn'"
proof -
  from assms(1) have "mn @ CHR ''/'' # (''CMORPH_V1.0_ADJ_8km-30min_'' @ yr @ mn @ a @ ''00.nc'')
      = mn' @ CHR ''/'' # (''CMORPH_V1.0_ADJ_8km-30min_'' @ yr @ mn' @ b @ ''00.nc'')"
    by (simp add: target_path_def)
  with split_at_char [OF assms(2,3)] show ?thesis
    by blast
qed

lemma month_plan_nonempty: "month_plan yr mn \<noteq> []"
proof -
  have "1 \<le> days_in_month (int_of yr) (int_of mn)"
    using days_in_month_range [of "int_of yr" "int_of mn"] by linarith
  then have "[1..days_in_month (int_of yr) (int_of mn)] \<noteq> []"
    by simp
  then show ?thesis
    by (simp add: month_plan_def)
qed

lemma month_plan_disjoint:
  assumes "CHR ''/'' \<notin> set mn" and "CHR ''/'' \<notin> set mn'" and "mn \<noteq> mn'"
  shows "set (month_plan yr mn) \<inter> set (month_plan yr mn') = {}"
  using assms target_path_month [of yr mn _ mn']
  by (auto simp: month_plan_def)

lemma distinct_plan:
  assumes "distinct mns" and "\<forall>mn\<in>set mns. CHR ''/'' \<notin> set mn"
  shows "distinct (concat (map (month_plan yr) mns))"
  using assms
proof (induction mns)
  case Nil
  then show ?case by simp
next
  case (Cons mn mns)
  have "set (month_plan yr mn) \<inter> set (month_plan yr mn') = {}" if "mn' \<in> set mns" for mn'
    using that Cons.prems by (intro month_plan_disjoint) auto
  with Cons show ?case
    by (auto simp: distinct_month_plan)
qed

lemma get_filelist_single:
  assumes "valid_year yr" and "valid_month mn"
      and "makedirs_error en (data_dir @ ''/v1.0/30min/8km/'' @ yr @ ''/'' @ mn @ ''/'') = None"
  shows "snd (get_filelist en yr [mn] data_dir w) = Inr (month_plan yr mn)"
proof -
  from valid_month_int [OF assms(2)] assms(3)
  have "\<forall>m\<in>set [mn]. (\<exists>k. py_int m = Inr k \<and> 1 \<le> k \<and> k \<le> 12)
          \<and> makedirs_error en (data_dir @ ''/v1.0/30min/8km/'' @ yr @ ''/'' @ m @ ''/'') = None"
    by simp
  from get_filelist_loop_succeeds [OF valid_year_int [OF assms(1)] this, of "[]" w]
  show ?thesis
    by (auto simp: get_filelist_def)
qed

lemma month_plan_valid:
  assumes "valid_year yr" and "valid_month mn"
  shows "month_plan yr mn
           = map (\<lambda>d. target_path yr mn (fmt_2d d)) [1..days_in_month (dec_val yr) (dec_val mn)]"
  using valid_year_int [OF assms(1)] valid_month_int [OF assms(2)]
  by (simp add: month_plan_def int_of_def)

lemma length_month_plan:
  "int (length (month_plan yr mn)) = days_in_month (int_of yr) (int_of mn)"
  using days_in_month_range [of "int_of yr" "int_of mn"] by (simp add: month_plan_def)

lemma get_filelist_loop_fails:
  assumes "py_int yr = Inr y"
      and "\<forall>m\<in>set pre. (\<exists>k. py_int m = Inr k \<and> 1 \<le> k \<and> k \<le> 12)
             \<and> makedirs_error en (data_dir @ ''/v1.0/30min/8km/'' @ yr @ ''/'' @ m @ ''/'') = None"
      and "makedirs_error en (data_dir @ ''/v1.0/30min/8km/'' @ yr @ ''/'' @ mn @ ''/'') = Some e"
  shows "snd (get_filelist_loop en yr data_dir (pre @ mn # post) flist w) = Inl e"
  using assms(2)
proof (induction pre arbitrary: flist w)
  case Nil
  from assms(3) show ?case
    by (simp add: makedirs_def)
next
  case (Cons m pre)
  from Cons.prems obtain k where k: "py_int m = Inr k" "1 \<le> k" "k \<le> 12"
    and mk: "makedirs_error en (data_dir @ ''/v1.0/30min/8km/'' @ yr @ ''/'' @ m @ ''/'') = None"
    by auto
  from Cons.prems have rest: "\<forall>m\<in>set pre. (\<exists>k. py_int m = Inr k \<and> 1 \<le> k \<and> k \<le> 12)
             \<and> makedirs_error en (data_dir @ ''/v1.0/30min/8km/'' @ yr @ ''/'' @ m @ ''/'') = None"
    by simp
  have "get_filelist_loop en yr data_dir ((m # pre) @ mn # post) flist w
          = get_filelist_loop en yr data_dir (pre @ mn # post) (flist @ month_plan yr m)
              (record_event (MakeDirs (data_dir @ ''/v1.0/30min/8km/'' @ yr @ ''/'' @ m @ ''/''))
                 (w\<lparr>dirs := insert (data_dir @ ''/v1.0/30min/8km/'' @ yr @ ''/'' @ m @ ''/'') (dirs w)\<rparr>))"
    using assms(1) k mk monthrange_days [OF k(2,3), of y] fmonth_eq [OF assms(1) k(1)]
    by (simp add: makedirs_def Let_def)
  with Cons.IH [OF rest] show ?case
    by simp
qed

lemma valid_month_no_slash: "valid_month mn \<Longrightarrow> CHR ''/'' \<notin> set mn"
  by (auto simp: valid_month_def list_all_iff is_digit_def)

lemma plan_distinct_iff:
  assumes "\<forall>mn\<in>set mns. CHR ''/'' \<notin> set mn"
  shows "distinct (concat (map (month_plan yr) mns)) \<longleftrightarrow> distinct mns"
proof
  assume "distinct mns"
  with assms show "distinct (concat (map (month_plan yr) mns))"
    by (intro distinct_plan)
next
  assume d: "distinct (concat (map (month_plan yr) mns))"
  then show "distinct mns"
  proof (induction mns)
    case Nil
    then show ?case by simp
  next
    case (Cons mn mns)
    from Cons.prems have "distinct (month_plan yr mn @ concat (map (month_plan yr) mns))"
      by (simp only: list.map concat.simps)
    then have dj: "set (month_plan yr mn) \<inter> set (concat (map (month_plan yr) mns)) = {}"
      and dr: "distinct (concat (map (month_plan yr) mns))"
      by (simp_all only: distinct_append)
    have "mn \<notin> set mns"
    proof
      assume "mn \<in> set mns"
      then have "set (month_plan yr mn) \<subseteq> set (concat (map (month_plan yr) mns))"
        by auto
      then have "set (month_plan yr mn) \<inter> set (concat (map (month_plan yr) mns))
                   = set (month_plan yr mn)"
        by (rule Int_absorb2)
      with dj have "set (month_plan yr mn) = {}"
        by (simp only:)
      with month_plan_nonempty [of yr mn] show False
        by (simp only: set_empty)
    qed
    moreover from Cons.IH [OF dr] have "distinct mns" .
    ultimately show ?case
      by simp
  qed
qed

lemma plan_valid:
  assumes "valid_year yr" and "\<forall>mn\<in>set mns. valid_month mn"
  shows "concat (map (month_plan yr) mns)
           = concat (map (\<lambda>mn. map (\<lambda>d. target_path yr mn (fmt_2d d))
                                   [1..days_in_month (dec_val yr) (dec_val mn)]) mns)"
  using assms(2) by (induction mns) (simp_all add: month_plan_valid [OF assms(1)])

lemma length_plan:
  assumes "valid_year yr" and "\<forall>mn\<in>set mns. valid_month mn"
  shows "int (length (concat (map (month_plan yr) mns)))
           = sum_list (map (\<lambda>mn. days_in_month (dec_val yr) (dec_val mn)) mns)"
  using assms(2)
proof (induction mns)
  case Nil
  then show ?case by simp
next
  case (Cons mn mns)
  from Cons.prems have "valid_month mn"
    by simp
  from valid_year_int [OF assms(1)] valid_month_int [OF this] length_month_plan [of yr mn]
  have "int (length (month_plan yr mn)) = days_in_month (dec_val yr) (dec_val mn)"
    by (simp add: int_of_def)
  with Cons show ?case
    by simp
qed

lemma get_filelist_planned:
  assumes "valid_year yr" and "\<forall>mn\<in>set mns. valid_month mn"
      and "\<forall>mn\<in>set mns. makedirs_error en (data_dir @ ''/v1.0/30min/8km/'' @ yr @ ''/'' @ mn @ ''/'') = None"
  shows "snd (get_filelist en yr mns data_dir w) = Inr (concat (map (month_plan yr) mns))"
proof -
  from assms(2,3) valid_month_int
  have "\<forall>mn\<in>set mns. (\<exists>k. py_int mn = Inr k \<and> 1 \<le> k \<and> k \<le> 12)
          \<and> makedirs_error en (data_dir @ ''/v1.0/30min/8km/'' @ yr @ ''/'' @ mn @ ''/'') = None"
    by blast
  from get_filelist_loop_succeeds [OF valid_year_int [OF assms(1)] this, of "[]" w]
  show ?thesis
    by (auto simp: get_filelist_def)
qed

text \<open>
  Claim C2. For a year string of four digits and a list of two-digit strings that each
  name a month, \<open>get_filelist\<close> either passes on the failure of creating the directory of
  the first month for which that fails, or returns, month after month in the order
  given, exactly one path per calendar day of each month, in day order: as many paths
  per month as the Gregorian calendar gives it days, which is 28, 29, 30 or 31, so that
  the plan has as many paths as the requested months have days together. No path is
  planned twice exactly when no month is named twice. For \<open>2022\<close> and \<open>02\<close> that is 28
  paths, for \<open>2022\<close> with \<open>01\<close> and \<open>02\<close> 59 paths, all different.
\<close>

theorem one_target_per_calendar_day:
  assumes "valid_year yr" and "\<forall>mn\<in>set mns. valid_month mn"
  shows "(\<forall>pre mn post e.
            mns = pre @ mn # post
            \<and> (\<forall>m\<in>set pre. makedirs_error en (data_dir @ ''/v1.0/30min/8km/'' @ yr @ ''/'' @ m @ ''/'') = None)
            \<and> makedirs_error en (data_dir @ ''/v1.0/30min/8km/'' @ yr @ ''/'' @ mn @ ''/'') = Some e
            \<longrightarrow> snd (get_filelist en yr mns data_dir w) = Inl e)
       \<and> ((\<forall>mn\<in>set mns. makedirs_error en (data_dir @ ''/v1.0/30min/8km/'' @ yr @ ''/'' @ mn @ ''/'') = None)
            \<longrightarrow> snd (get_filelist en yr mns data_dir w)
                  = Inr (concat (map (\<lambda>mn. map (\<lambda>d. target_path yr mn (fmt_2d d))
                                              [1..days_in_month (dec_val yr) (dec_val mn)]) mns))
              \<and> int (length (projr (snd (get_filelist en yr mns data_dir w))))
                  = sum_list (map (\<lambda>mn. days_in_month (dec_val yr) (dec_val mn)) mns)
              \<and> (distinct (projr (snd (get_filelist en yr mns data_dir w))) \<longleftrightarrow> distinct mns))
       \<and> (\<forall>mn\<in>set mns. days_in_month (dec_val yr) (dec_val mn) \<in> {28, 29, 30, 31})"
proof (intro conjI allI impI ballI)
  fix pre mn post e
  assume a: "mns = pre @ mn # post
      \<and> (\<forall>m\<in>set pre. makedirs_error en (data_dir @ ''/v1.0/30min/8km/'' @ yr @ ''/'' @ m @ ''/'') = None)
      \<and> makedirs_error en (data_dir @ ''/v1.0/30min/8km/'' @ yr @ ''/'' @ mn @ ''/'') = Some e"
  with assms(2) valid_month_int
  have "\<forall>m\<in>set pre. (\<exists>k. py_int m = Inr k \<and> 1 \<le> k \<and> k \<le> 12)
          \<and> makedirs_error en (data_dir @ ''/v1.0/30min/8km/'' @ yr @ ''/'' @ m @ ''/'') = None"
    by auto
  from get_filelist_loop_fails [OF valid_year_int [OF assms(1)] this, of mn e post "[]" w] a
  show "snd (get_filelist en yr mns data_dir w) = Inl e"
    by (simp add: get_filelist_def)
next
  assume mk: "\<forall>mn\<in>set mns. makedirs_error en (data_dir @ ''/v1.0/30min/8km/'' @ yr @ ''/'' @ mn @ ''/'') = None"
  note g = get_filelist_planned [OF assms mk, of w]
  show "snd (get_filelist en yr mns data_dir w)
          = Inr (concat (map (\<lambda>mn. map (\<lambda>d. target_path yr mn (fmt_2d d))
                                      [1..days_in_month (dec_val yr) (dec_val mn)]) mns))"
    using g plan_valid [OF assms] by simp
  show "int (length (projr (snd (get_filelist en yr mns data_dir w))))
          = sum_list (map (\<lambda>mn. days_in_month (dec_val yr) (dec_val mn)) mns)"
    using length_plan [OF assms] by (simp add: g)
  show "distinct (projr (snd (get_filelist en yr mns data_dir w))) \<longleftrightarrow> distinct mns"
    using plan_distinct_iff [of mns yr] assms(2) valid_month_no_slash by (simp add: g)
next
  fix mn
  show "days_in_month (dec_val yr) (dec_val mn) \<in> {28, 29, 30, 31}"
    by (simp add: days_in_month_def)
qed

lemma valid_2022: "valid_year ''2022''"
  by (simp add: valid_year_def is_digit_def)

lemma valid_02: "valid_month ''02''"
  by (simp add: valid_month_def is_digit_def dec_val_def digit_val_def)

lemma dec_val_2022: "dec_val ''2022'' = 2022"
  by (simp add: dec_val_def digit_val_def)

lemma dec_val_02: "dec_val ''02'' = 2"
  by (simp add: dec_val_def digit_val_def)

lemma valid_01: "valid_month ''01''"
  by (simp add: valid_month_def is_digit_def dec_val_def digit_val_def)

lemma dec_val_01: "dec_val ''01'' = 1"
  by (simp add: dec_val_def digit_val_def)

theorem one_target_per_calendar_day_witness:
  "valid_year ''2022'' \<and> valid_month ''01'' \<and> valid_month ''02''
   \<and> makedirs_error sample_env (''/d'' @ ''/v1.0/30min/8km/'' @ ''2022'' @ ''/'' @ ''01'' @ ''/'') = None
   \<and> makedirs_error sample_env (''/d'' @ ''/v1.0/30min/8km/'' @ ''2022'' @ ''/'' @ ''02'' @ ''/'') = None
   \<and> int (length (projr (snd (get_filelist sample_env ''2022'' [''01'', ''02''] ''/d'' empty_world)))) = 59
   \<and> distinct (projr (snd (get_filelist sample_env ''2022'' [''01'', ''02''] ''/d'' empty_world)))
   \<and> int (length (projr (snd (get_filelist sample_env ''2022'' [''02''] ''/d'' empty_world)))) = 28"
proof -
  have v: "\<forall>mn\<in>set [''01'', ''02'']. valid_month mn"
    by (simp add: valid_01 valid_02)
  have v2: "\<forall>mn\<in>set [''02'']. valid_month mn"
    by (simp add: valid_02)
  have mk: "\<forall>mn\<in>set [''01'', ''02''].
      makedirs_error sample_env (''/d'' @ ''/v1.0/30min/8km/'' @ ''2022'' @ ''/'' @ mn @ ''/'') = None"
    by (simp add: sample_env_def)
  have mk2: "\<forall>mn\<in>set [''02''].
      makedirs_error sample_env (''/d'' @ ''/v1.0/30min/8km/'' @ ''2022'' @ ''/'' @ mn @ ''/'') = None"
    by (simp add: sample_env_def)
  note t = one_target_per_calendar_day [OF valid_2022 v, of sample_env "''/d''" empty_world,
      THEN conjunct2, THEN conjunct1, THEN mp, OF mk, THEN conjunct2]
  note t2 = one_target_per_calendar_day [OF valid_2022 v2, of sample_env "''/d''" empty_world,
      THEN conjunct2, THEN conjunct1, THEN mp, OF mk2, THEN conjunct2, THEN conjunct1]
  have d: "days_in_month (dec_val ''2022'') (dec_val ''02'') = 28"
       "days_in_month (dec_val ''2022'') (dec_val ''01'') = 31"
    by (simp_all add: dec_val_2022 dec_val_02 dec_val_01 days_in_month_def)
  have "int (length (projr (snd (get_filelist sample_env ''2022'' [''01'', ''02''] ''/d'' empty_world)))) = 59"
    using t [THEN conjunct1] d by simp
  moreover have "distinct (projr (snd (get_filelist sample_env ''2022'' [''01'', ''02''] ''/d'' empty_world)))"
    using t [THEN conjunct2] by simp
  moreover have "int (length (projr (snd (get_filelist sample_env ''2022'' [''02''] ''/d'' empty_world)))) = 28"
    using t2 d by simp
  moreover have "makedirs_error sample_env
      (''/d'' @ ''/v1.0/30min/8km/'' @ ''2022'' @ ''/'' @ ''01'' @ ''/'') = None"
    "makedirs_error sample_env
      (''/d'' @ ''/v1.0/30min/8km/'' @ ''2022'' @ ''/'' @ ''02'' @ ''/'') = None"
    by (simp_all add: sample_env_def)
  ultimately show ?thesis
    using valid_2022 valid_01 valid_02 by (intro conjI)
qed

section \<open>Where a planned file lives\<close>

lemma fmt_2d_length:
  assumes "0 \<le> d" and "d < 100"
  shows "length (fmt_2d d) = 2"
proof (cases "nat d < 10")
  case True
  with assms show ?thesis
    by (simp add: fmt_2d_def dec.simps [of "nat d"])
next
  case False
  with assms have "nat d div 10 < 10"
    by linarith
  with False assms show ?thesis
    by (simp add: fmt_2d_def dec.simps [of "nat d"] dec.simps [of "nat d div 10"])
qed

text \<open>
  Claim C3, amended. Every path that \<open>get_filelist\<close> produces belongs to one of the
  requested months and one day of it, written with two digits, and is
  \<open>v1.0/30min/8km/{year}/{month}/CMORPH_V1.0_ADJ_8km-30min_{year}{month}{day}00.nc\<close>.
  Its remote URL is the base URL followed by
  \<open>cmorph_v1.0/30min/8km/{year}/{month}/CMORPH_V1.0_ADJ_8km-30min_{year}{month}{day}00.nc\<close>,
  and its local path is the data directory, a slash, and the path itself, that is the
  remote form without the \<open>cmorph_\<close> prefix.
\<close>

theorem planned_paths_and_their_two_locations:
  assumes "get_filelist en yr mns data_dir w = (w', Inr flist)"
      and "fpath \<in> set flist"
  shows "\<exists>mn\<in>set mns. \<exists>d. 1 \<le> d \<and> d \<le> days_in_month (int_of yr) (int_of mn)
           \<and> length (fmt_2d d) = 2
           \<and> fpath = ''v1.0/30min/8km/'' @ yr @ ''/'' @ mn
                       @ ''/CMORPH_V1.0_ADJ_8km-30min_'' @ yr @ mn @ fmt_2d d @ ''00.nc''
           \<and> remote_url dspath fpath
                = dspath @ ''cmorph_v1.0/30min/8km/'' @ yr @ ''/'' @ mn
                       @ ''/CMORPH_V1.0_ADJ_8km-30min_'' @ yr @ mn @ fmt_2d d @ ''00.nc''
           \<and> local_path ddir fpath
                = ddir @ ''/v1.0/30min/8km/'' @ yr @ ''/'' @ mn
                       @ ''/CMORPH_V1.0_ADJ_8km-30min_'' @ yr @ mn @ fmt_2d d @ ''00.nc''"
proof -
  from get_filelist_loop_result [OF assms(1) [unfolded get_filelist_def]]
  have "flist = concat (map (month_plan yr) mns)"
    by simp
  with assms(2) obtain mn where mn: "mn \<in> set mns" "fpath \<in> set (month_plan yr mn)"
    by auto
  then obtain d where d: "1 \<le> d" "d \<le> days_in_month (int_of yr) (int_of mn)"
      "fpath = target_path yr mn (fmt_2d d)"
    by (auto simp: month_plan_def)
  from d(1,2) days_in_month_range [of "int_of yr" "int_of mn"] have "length (fmt_2d d) = 2"
    by (intro fmt_2d_length) linarith+
  with mn(1) d show ?thesis
    by (auto simp: target_path_def remote_url_def local_path_def)
qed


lemma fmt_2d_1: "fmt_2d 1 = ''01''"
  by code_simp

lemma month_plan_2022_02:
  "month_plan ''2022'' ''02'' = map (\<lambda>d. target_path ''2022'' ''02'' (fmt_2d d)) [1..28]"
  by (simp add: month_plan_valid [OF valid_2022 valid_02] dec_val_2022 dec_val_02 days_in_month_def)

lemma first_of_february:
  "hd (month_plan ''2022'' ''02'') = ''v1.0/30min/8km/2022/02/CMORPH_V1.0_ADJ_8km-30min_2022020100.nc''"
  by (simp add: month_plan_2022_02 upto_rec1 [of 1 28] fmt_2d_1 target_path_def)

lemma sample_plan:
  "snd (get_filelist sample_env ''2022'' [''02''] ''/d'' empty_world) = Inr (month_plan ''2022'' ''02'')"
  by (rule get_filelist_single [OF valid_2022 valid_02]) (simp add: sample_env_def)

theorem planned_paths_and_their_two_locations_witness:
  "get_filelist sample_env ''2022'' [''02''] ''/d'' empty_world
     = (fst (get_filelist sample_env ''2022'' [''02''] ''/d'' empty_world), Inr (month_plan ''2022'' ''02''))
   \<and> hd (month_plan ''2022'' ''02'') \<in> set (month_plan ''2022'' ''02'')
   \<and> (\<exists>mn\<in>set [''02'']. \<exists>d. 1 \<le> d \<and> d \<le> days_in_month (int_of ''2022'') (int_of mn)
           \<and> length (fmt_2d d) = 2
           \<and> hd (month_plan ''2022'' ''02'') = ''v1.0/30min/8km/'' @ ''2022'' @ ''/'' @ mn
                       @ ''/CMORPH_V1.0_ADJ_8km-30min_'' @ ''2022'' @ mn @ fmt_2d d @ ''00.nc''
           \<and> remote_url ''https://rda.ucar.edu/data/ds502.2/'' (hd (month_plan ''2022'' ''02''))
                = ''https://rda.ucar.edu/data/ds502.2/'' @ ''cmorph_v1.0/30min/8km/'' @ ''2022'' @ ''/'' @ mn
                       @ ''/CMORPH_V1.0_ADJ_8km-30min_'' @ ''2022'' @ mn @ fmt_2d d @ ''00.nc''
           \<and> local_path ''/d'' (hd (month_plan ''2022'' ''02''))
                = ''/d'' @ ''/v1.0/30min/8km/'' @ ''2022'' @ ''/'' @ mn
                       @ ''/CMORPH_V1.0_ADJ_8km-30min_'' @ ''2022'' @ mn @ fmt_2d d @ ''00.nc'')"
proof -
  have h1: "get_filelist sample_env ''2022'' [''02''] ''/d'' empty_world
     = (fst (get_filelist sample_env ''2022'' [''02''] ''/d'' empty_world), Inr (month_plan ''2022'' ''02''))"
    using sample_plan by (simp add: prod_eq_iff)
  have h2: "hd (month_plan ''2022'' ''02'') \<in> set (month_plan ''2022'' ''02'')"
    by (rule hd_in_set) (rule month_plan_nonempty)
  note t = planned_paths_and_their_two_locations [OF h1 h2,
      of "''https://rda.ucar.edu/data/ds502.2/''" "''/d''"]
  from h1 h2 t show ?thesis
    by (intro conjI)
qed

text \<open>
  Claim C3 as stated fails on the first file of February 2022: its remote URL is the base
  URL followed by \<open>cmorph_v1.0/30min/8km/2022/02/...\<close>; the pattern of the claim, which
  repeats \<open>v1.0/30min/8km/2022/02/\<close> in front of \<open>cmorph_\<close>, is neither what follows the
  base URL nor an ending of the URL.
\<close>

theorem remote_path_pattern_counterexample:
  "hd (projr (snd (get_filelist sample_env ''2022'' [''02''] ''/d'' empty_world)))
     = ''v1.0/30min/8km/2022/02/CMORPH_V1.0_ADJ_8km-30min_2022020100.nc''
   \<and> remote_url ''https://rda.ucar.edu/data/ds502.2/''
         ''v1.0/30min/8km/2022/02/CMORPH_V1.0_ADJ_8km-30min_2022020100.nc''
       = ''https://rda.ucar.edu/data/ds502.2/cmorph_v1.0/30min/8km/2022/02/CMORPH_V1.0_ADJ_8km-30min_2022020100.nc''
   \<and> remote_url ''https://rda.ucar.edu/data/ds502.2/''
         ''v1.0/30min/8km/2022/02/CMORPH_V1.0_ADJ_8km-30min_2022020100.nc''
       \<noteq> ''https://rda.ucar.edu/data/ds502.2/'' @ spec_remote_pattern ''2022'' ''02'' ''01''
   \<and> \<not> suffix (spec_remote_pattern ''2022'' ''02'' ''01'')
         (remote_url ''https://rda.ucar.edu/data/ds502.2/''
            ''v1.0/30min/8km/2022/02/CMORPH_V1.0_ADJ_8km-30min_2022020100.nc'')"
  by (simp add: sample_plan first_of_february remote_url_def spec_remote_pattern_def
        suffix_to_prefix)

section \<open>Local path and remote URL of one target\<close>

lemma process_target_events:
  assumes "process_target en ret dspath data_dir fpath w = (w', r)"
  shows "\<exists>ops. new_events w w' = Get (remote_url dspath fpath) (cookies ret) # ops
           \<and> set ops \<subseteq> {CheckMdt (local_path data_dir fpath), OpenWrite (local_path data_dir fpath)}"
proof -
  from assms obtain r0 where
    "download_file en ret (remote_url dspath fpath) (local_path data_dir fpath)
       (path_exists w (local_path data_dir fpath)) w = (w', r0)"
    by (auto simp: process_target_eq split: prod.splits sum.splits)
  from download_file_events [OF this] show ?thesis
    by auto
qed

text \<open>
  Claim C8. For a target with planned path \<open>fpath\<close>, the remote URL is the base URL, then
  \<open>cmorph_\<close>, then \<open>fpath\<close>, and the local path is the data directory, a slash, then
  \<open>fpath\<close>: below their roots the two differ by the prefix \<open>cmorph_\<close>, which the remote
  form has and the local form lacks. These are the places the loop really uses: the GET
  of the target goes to that URL, and the staleness probe and the opening for writing
  are made on that local path.
\<close>

theorem local_and_remote_differ_by_the_cmorph_prefix:
  assumes "process_target en ret dspath data_dir fpath w = (w', r)"
  shows "remote_url dspath fpath = dspath @ ''cmorph_'' @ fpath
       \<and> local_path data_dir fpath = data_dir @ ''/'' @ fpath
       \<and> drop (length dspath) (remote_url dspath fpath)
            = ''cmorph_'' @ drop (length data_dir + 1) (local_path data_dir fpath)
       \<and> (\<exists>ops. new_events w w' = Get (dspath @ ''cmorph_'' @ fpath) (cookies ret) # ops
             \<and> set ops \<subseteq> {CheckMdt (data_dir @ ''/'' @ fpath), OpenWrite (data_dir @ ''/'' @ fpath)})"
  using process_target_events [OF assms]
  by (simp add: remote_url_def local_path_def)

theorem local_and_remote_differ_by_the_cmorph_prefix_witness:
  "process_target sample_env sample_response ''d/'' ''/r'' ''p'' empty_world =
     (fetched_world, Inr (False, ''complete''))
   \<and> remote_url ''d/'' ''p'' = ''d/'' @ ''cmorph_'' @ ''p''
   \<and> local_path ''/r'' ''p'' = ''/r'' @ ''/'' @ ''p''"
proof -
  note t = local_and_remote_differ_by_the_cmorph_prefix [OF sample_fetch]
  from sample_fetch t [THEN conjunct1] t [THEN conjunct2, THEN conjunct1] show ?thesis
    by (intro conjI)
qed

section \<open>Outcomes of the download loop\<close>

lemma process_target_status:
  assumes "process_target en ret dspath data_dir fpath w = (w', Inr (upd, st))"
  shows "st = ''skip'' \<and> upd \<or> st = ''complete'' \<or> st = ''incomplete''"
proof -
  from assms have "download_file en ret (remote_url dspath fpath) (local_path data_dir fpath)
       upd w = (w', Inr st)"
    by (auto simp: process_target_eq split: prod.splits sum.splits)
  then show ?thesis
    by (rule download_file_status)
qed

lemma download_all_outcomes:
  "download_all en ret dspath data_dir flist (u0, n0, e0) w = (w', Inr (u, n, e)) \<Longrightarrow>
     map fst (outcomes en ret dspath data_dir flist w) = flist
     \<and> u = u0 @ map fst (filter (\<lambda>(p, upd, st). st = ''complete'' \<and> upd)
                       (outcomes en ret dspath data_dir flist w))
     \<and> n = n0 @ map fst (filter (\<lambda>(p, upd, st). st = ''complete'' \<and> \<not> upd)
                       (outcomes en ret dspath data_dir flist w))
     \<and> e = e0 @ map fst (filter (\<lambda>(p, upd, st). st = ''incomplete'')
                       (outcomes en ret dspath data_dir flist w))
     \<and> (\<forall>(p, upd, st) \<in> set (outcomes en ret dspath data_dir flist w).
           st = ''skip'' \<and> upd \<or> st = ''complete'' \<or> st = ''incomplete'')"
proof (induction flist arbitrary: u0 n0 e0 w)
  case Nil
  then show ?case by simp
next
  case (Cons fpath rest)
  from Cons.prems obtain w1 upd st where
    p: "process_target en ret dspath data_dir fpath w = (w1, Inr (upd, st))"
    by (auto split: prod.splits sum.splits)
  note s = process_target_status [OF p]
  show ?case
  proof (cases "st = ''complete''")
    case True
    show ?thesis
    proof (cases upd)
      case True
      with \<open>st = ''complete''\<close> p Cons.prems
      have "download_all en ret dspath data_dir rest (u0 @ [fpath], n0, e0) w1 = (w', Inr (u, n, e))"
        by simp
      from Cons.IH [OF this] p True \<open>st = ''complete''\<close> show ?thesis
        by simp
    next
      case False
      with \<open>st = ''complete''\<close> p Cons.prems
      have "download_all en ret dspath data_dir rest (u0, n0 @ [fpath], e0) w1 = (w', Inr (u, n, e))"
        by simp
      from Cons.IH [OF this] p False \<open>st = ''complete''\<close> show ?thesis
        by simp
    qed
  next
    case False
    show ?thesis
    proof (cases "st = ''incomplete''")
      case True
      with p Cons.prems
      have "download_all en ret dspath data_dir rest (u0, n0, e0 @ [fpath]) w1 = (w', Inr (u, n, e))"
        by simp
      from Cons.IH [OF this] p True show ?thesis
        by simp
    next
      case False
      with \<open>st \<noteq> ''complete''\<close> p Cons.prems
      have "download_all en ret dspath data_dir rest (u0, n0, e0) w1 = (w', Inr (u, n, e))"
        by simp
      from Cons.IH [OF this] p False \<open>st \<noteq> ''complete''\<close> s show ?thesis
        by simp
    qed
  qed
qed

lemma filtered_keys_disjoint:
  assumes "distinct (map fst os)" and "\<And>x. x \<in> set os \<Longrightarrow> \<not> (P x \<and> Q x)"
  shows "set (map fst (filter P os)) \<inter> set (map fst (filter Q os)) = {}"
proof (rule ccontr)
  assume "set (map fst (filter P os)) \<inter> set (map fst (filter Q os)) \<noteq> {}"
  then obtain k a b where "(k, a) \<in> set os" "P (k, a)" "(k, b) \<in> set os" "Q (k, b)"
    by fastforce
  with assms(1) have "a = b"
    by (meson eq_key_imp_eq_value)
  with assms(2) \<open>(k, a) \<in> set os\<close> \<open>P (k, a)\<close> \<open>Q (k, b)\<close> show False
    by blast
qed

lemma filtered_keys_distinct:
  "distinct (map fst os) \<Longrightarrow> distinct (map fst (filter P os))"
  by (simp add: distinct_map_filter)


lemma plan_distinct:
  assumes "get_filelist en yr mns data_dir w0 = (w, Inr flist)" and "distinct mns"
  shows "distinct flist"
proof -
  from get_filelist_loop_result [OF assms(1) [unfolded get_filelist_def]]
  have f: "flist = concat (map (month_plan yr) mns)"
    and m: "\<forall>mn\<in>set mns. \<exists>m. py_int mn = Inr m \<and> 1 \<le> m \<and> m \<le> 12"
    by simp_all
  from m have "\<forall>mn\<in>set mns. CHR ''/'' \<notin> set mn"
    using py_int_plain(2) by blast
  with assms(2) show ?thesis
    unfolding f by (rule distinct_plan)
qed

text \<open>
  Claim C4, amended. Take a run in which \<open>get_filelist\<close> returns a plan for months that
  are pairwise different and in which the download loop reaches its end. Then the plan
  has no repeated path; the loop hands every path of the plan exactly one status, in
  plan order, and that status is \<open>'skip'\<close>, \<open>'complete'\<close> or \<open>'incomplete'\<close>; the lists
  \<open>updated\<close>, \<open>new\<close> and \<open>error\<close> hold the paths that were complete in update mode,
  complete otherwise, and incomplete; the three lists are pairwise disjoint; and a path
  whose status is \<open>'skip'\<close> is in none of them.
\<close>

theorem each_target_one_outcome_and_buckets_disjoint:
  assumes plan: "get_filelist en yr mns data_dir w0 = (w, Inr flist)"
      and months: "distinct mns"
      and loop: "download_all en ret dspath ddir flist ([], [], []) w = (w', Inr (updated, new, error))"
  defines "os \<equiv> outcomes en ret dspath ddir flist w"
  shows "distinct flist \<and> map fst os = flist
       \<and> (\<forall>(p, upd, st) \<in> set os. st = ''skip'' \<or> st = ''complete'' \<or> st = ''incomplete'')
       \<and> updated = map fst (filter (\<lambda>(p, upd, st). st = ''complete'' \<and> upd) os)
       \<and> new = map fst (filter (\<lambda>(p, upd, st). st = ''complete'' \<and> \<not> upd) os)
       \<and> error = map fst (filter (\<lambda>(p, upd, st). st = ''incomplete'') os)
       \<and> set updated \<inter> set new = {} \<and> set updated \<inter> set error = {} \<and> set new \<inter> set error = {}
       \<and> (\<forall>(p, upd, st) \<in> set os. st = ''skip'' \<longrightarrow>
             p \<notin> set updated \<and> p \<notin> set new \<and> p \<notin> set error)"
proof -
  let ?U = "\<lambda>(p::string, upd, st). st = ''complete'' \<and> upd"
  let ?N = "\<lambda>(p::string, upd, st). st = ''complete'' \<and> \<not> upd"
  let ?E = "\<lambda>(p::string, upd::bool, st). st = ''incomplete''"
  let ?S = "\<lambda>(p::string, upd::bool, st). st = ''skip''"
  note o = download_all_outcomes [OF loop, folded os_def]
  from o have keys: "map fst os = flist"
    and u: "updated = map fst (filter ?U os)"
    and n: "new = map fst (filter ?N os)"
    and e: "error = map fst (filter ?E os)"
    and st: "\<forall>(p, upd, st) \<in> set os. st = ''skip'' \<and> upd \<or> st = ''complete'' \<or> st = ''incomplete''"
    by simp_all
  have d: "distinct flist"
    using plan months by (rule plan_distinct)
  then have dk: "distinct (map fst os)"
    by (simp add: keys)
  have un: "set updated \<inter> set new = {}"
    unfolding u n by (rule filtered_keys_disjoint [OF dk]) auto
  have ue: "set updated \<inter> set error = {}"
    unfolding u e by (rule filtered_keys_disjoint [OF dk]) auto
  have ne: "set new \<inter> set error = {}"
    unfolding n e by (rule filtered_keys_disjoint [OF dk]) auto
  have su: "set (map fst (filter ?S os)) \<inter> set updated = {}"
    unfolding u by (rule filtered_keys_disjoint [OF dk]) auto
  have sn: "set (map fst (filter ?S os)) \<inter> set new = {}"
    unfolding n by (rule filtered_keys_disjoint [OF dk]) auto
  have se: "set (map fst (filter ?S os)) \<inter> set error = {}"
    unfolding e by (rule filtered_keys_disjoint [OF dk]) auto
  have skip: "\<forall>(p, upd, st) \<in> set os. st = ''skip'' \<longrightarrow>
             p \<notin> set updated \<and> p \<notin> set new \<and> p \<notin> set error"
  proof (clarify)
    fix p upd
    assume "(p, upd, ''skip'') \<in> set os"
    then have "p \<in> set (map fst (filter ?S os))"
      by force
    with su sn se show "p \<notin> set updated \<and> p \<notin> set new \<and> p \<notin> set error"
      by blast
  qed
  from st have st': "\<forall>(p, upd, st) \<in> set os. st = ''skip'' \<or> st = ''complete'' \<or> st = ''incomplete''"
    by auto
  from d keys st' u n e un ue ne skip show ?thesis
    by (intro conjI)
qed


subsection \<open>Runs against the sample server\<close>

lemma sample_process_fresh:
  assumes "\<not> path_exists w (local_path ddir p)"
  shows "process_target sample_env sample_response dspath ddir p w =
           (w\<lparr>files := (files w)(local_path ddir p \<mapsto> ''abc''),
              trace := trace w @ [Get (remote_url dspath p) ''session'', OpenWrite (local_path ddir p)]\<rparr>,
            Inr (False, ''complete''))"
proof -
  let ?l = "local_path ddir p"
  let ?w2 = "w\<lparr>files := (files w)(?l \<mapsto> ''abc''),
              trace := trace w @ [Get (remote_url dspath p) ''session'', OpenWrite ?l]\<rparr>"
  have c: "check_file_status w' l 3 = Inr ''complete''" if "files w' l = Some ''abc''" for w' l
    using that by (simp add: check_file_status_def stat_size_def int_truediv_3_3 float_mul_1_100)
  from assms have "?l \<notin> dirs w"
    by (simp add: path_exists_def)
  then have "download_body sample_env sample_response ?l 3
               (record_event (Get (remote_url dspath p) ''session'') w) = (?w2, Inr ''complete'')"
    by (simp add: download_body_def open_wb_def sample_env_def sample_response_def
          record_event_def write_bytes_def c)
  then show ?thesis
    using assms
    by (simp add: process_target_eq download_file_def sample_env_def [of] header_get_content_length
          py_int_3 sample_response_def)
qed


lemma sample_process_stocked:
  assumes "path_exists w (local_path ddir p)"
  shows "process_target sample_env sample_response dspath ddir p w =
           (w\<lparr>trace := trace w @ [Get (remote_url dspath p) ''session'', CheckMdt (local_path ddir p)]\<rparr>,
            Inr (True, ''skip''))"
  using assms
  by (simp add: process_target_eq download_file_def sample_env_def header_get_content_length
        py_int_3 sample_response_def record_event_def)

lemma chunked_process:
  "process_target chunked_env sample_response dspath ddir p w =
     (record_event (Get (remote_url dspath p) ''session'') w, Inl (KeyError ''content-length''))"
  by (simp add: process_target_eq download_file_def chunked_env_def chunked_response_def
        header_get_content_length sample_response_def)

lemma local_path_inj: "local_path ddir p = local_path ddir q \<longleftrightarrow> p = q"
  by (simp add: local_path_def)

lemma sample_fresh_run:
  assumes "distinct flist" and "\<forall>p\<in>set flist. \<not> path_exists w (local_path ddir p)"
  shows "snd (download_all sample_env sample_response dspath ddir flist (u, n, e) w)
           = Inr (u, n @ flist, e)
       \<and> outcomes sample_env sample_response dspath ddir flist w
           = map (\<lambda>p. (p, False, ''complete'')) flist
       \<and> (\<forall>q. path_exists (fst (download_all sample_env sample_response dspath ddir flist (u, n, e) w)) q
              \<longleftrightarrow> path_exists w q \<or> q \<in> local_path ddir ` set flist)"
  using assms
proof (induction flist arbitrary: w n)
  case Nil
  then show ?case by simp
next
  case (Cons p rest)
  let ?w1 = "w\<lparr>files := (files w)(local_path ddir p \<mapsto> ''abc''),
              trace := trace w @ [Get (remote_url dspath p) ''session'', OpenWrite (local_path ddir p)]\<rparr>"
  from Cons.prems have f: "\<not> path_exists w (local_path ddir p)"
    by simp
  note pt = sample_process_fresh [OF f, of dspath]
  have ex: "path_exists ?w1 q \<longleftrightarrow> path_exists w q \<or> q = local_path ddir p" for q
    by (auto simp: path_exists_def)
  from Cons.prems have "distinct rest" "\<forall>q\<in>set rest. \<not> path_exists ?w1 (local_path ddir q)"
    by (auto simp: ex local_path_inj)
  from Cons.IH [OF this, of "n @ [p]"] show ?case
    by (auto simp: pt ex)
qed

lemma sample_stocked_run:
  assumes "\<forall>p\<in>set flist. path_exists w (local_path ddir p)"
  shows "snd (download_all sample_env sample_response dspath ddir flist (u, n, e) w) = Inr (u, n, e)
       \<and> outcomes sample_env sample_response dspath ddir flist w
           = map (\<lambda>p. (p, True, ''skip'')) flist"
  using assms
proof (induction flist arbitrary: w)
  case Nil
  then show ?case by simp
next
  case (Cons p rest)
  let ?w1 = "w\<lparr>trace := trace w @ [Get (remote_url dspath p) ''session'', CheckMdt (local_path ddir p)]\<rparr>"
  from Cons.prems have f: "path_exists w (local_path ddir p)"
    by simp
  note pt = sample_process_stocked [OF f, of dspath]
  from Cons.prems have "\<forall>q\<in>set rest. path_exists ?w1 (local_path ddir q)"
    by (simp add: path_exists_def)
  from Cons.IH [OF this] show ?case
    by (simp add: pt)
qed

lemma download_all_append:
  "download_all en ret dspath ddir xs acc w = (w1, Inr acc1) \<Longrightarrow>
     download_all en ret dspath ddir (xs @ ys) acc w = download_all en ret dspath ddir ys acc1 w1
     \<and> outcomes en ret dspath ddir (xs @ ys) w
         = outcomes en ret dspath ddir xs w @ outcomes en ret dspath ddir ys w1"
proof (induction xs arbitrary: acc w)
  case Nil
  then show ?case by (cases acc) auto
next
  case (Cons x xs)
  obtain u n e where acc: "acc = (u, n, e)"
    by (cases acc)
  from Cons.prems obtain w2 upd st where
    p: "process_target en ret dspath ddir x w = (w2, Inr (upd, st))"
    by (auto simp: acc split: prod.splits sum.splits)
  from Cons.prems p Cons.IH show ?case
    by (auto simp: acc split: if_splits)
qed


lemma get_filelist_loop_step:
  assumes "py_int yr = Inr y" and "py_int mn = Inr m" and "1 \<le> m" and "m \<le> 12"
      and "makedirs_error en (data_dir @ ''/v1.0/30min/8km/'' @ yr @ ''/'' @ mn @ ''/'') = None"
  shows "get_filelist_loop en yr data_dir (mn # mns) flist w
          = get_filelist_loop en yr data_dir mns (flist @ month_plan yr mn)
              (record_event (MakeDirs (data_dir @ ''/v1.0/30min/8km/'' @ yr @ ''/'' @ mn @ ''/''))
                 (w\<lparr>dirs := insert (data_dir @ ''/v1.0/30min/8km/'' @ yr @ ''/'' @ mn @ ''/'') (dirs w)\<rparr>))"
  using assms monthrange_days [OF assms(3,4), of y] fmonth_eq [OF assms(1,2)]
  by (simp add: makedirs_def Let_def)

lemma sample_step:
  "get_filelist_loop sample_env ''2022'' ''/d'' (''02'' # mns) flist w
     = get_filelist_loop sample_env ''2022'' ''/d'' mns (flist @ month_plan ''2022'' ''02'')
         (record_event (MakeDirs ''/d/v1.0/30min/8km/2022/02/'')
            (w\<lparr>dirs := insert ''/d/v1.0/30min/8km/2022/02/'' (dirs w)\<rparr>))"
  using get_filelist_loop_step [OF valid_year_int [OF valid_2022] conjunct1 [OF valid_month_int [OF valid_02]],
          of sample_env "''/d''" mns flist w]
  by (simp add: dec_val_02 sample_env_def)

lemma sample_plan_once:
  "get_filelist sample_env ''2022'' [''02''] ''/d'' empty_world
     = (planned_world 1, Inr (month_plan ''2022'' ''02''))"
  by (simp add: get_filelist_def sample_step planned_world_def record_event_def empty_world_def
           del: get_filelist_loop.simps(2))

lemma sample_plan_twice:
  "get_filelist sample_env ''2022'' [''02'', ''02''] ''/d'' empty_world
     = (planned_world 2, Inr (month_plan ''2022'' ''02'' @ month_plan ''2022'' ''02''))"
  by (simp add: get_filelist_def sample_step planned_world_def record_event_def empty_world_def
        numeral_2_eq_2 del: get_filelist_loop.simps(2))

lemma planned_world_fresh:
  assumes "p \<in> set (month_plan ''2022'' ''02'')"
  shows "\<not> path_exists (planned_world k) (local_path ''/d'' p)"
  using assms
  by (auto simp: month_plan_def target_path_def local_path_def path_exists_def planned_world_def
        empty_world_def)

lemma length_feb: "length (month_plan ''2022'' ''02'') = 28"
  by (simp add: month_plan_2022_02)


text \<open>
  February 2022 with nothing on disk: all 28 files are fetched and land in \<open>new\<close>.
\<close>

theorem each_target_one_outcome_and_buckets_disjoint_witness:
  "get_filelist sample_env ''2022'' [''02''] ''/d'' empty_world
     = (planned_world 1, Inr (month_plan ''2022'' ''02''))
   \<and> distinct [''02'']
   \<and> download_all sample_env sample_response ''b/'' ''/d'' (month_plan ''2022'' ''02'')
         ([], [], []) (planned_world 1)
       = (fst (download_all sample_env sample_response ''b/'' ''/d'' (month_plan ''2022'' ''02'')
                 ([], [], []) (planned_world 1)),
          Inr ([], month_plan ''2022'' ''02'', []))
   \<and> map fst (outcomes sample_env sample_response ''b/'' ''/d'' (month_plan ''2022'' ''02'')
                 (planned_world 1))
       = month_plan ''2022'' ''02''
   \<and> set [] \<inter> set (month_plan ''2022'' ''02'') = {}"
proof -
  have h2: "distinct [''02'']"
    by simp
  have "snd (download_all sample_env sample_response ''b/'' ''/d'' (month_plan ''2022'' ''02'')
               ([], [], []) (planned_world 1)) = Inr ([], [] @ month_plan ''2022'' ''02'', [])"
    using sample_fresh_run [OF distinct_month_plan, of "''2022''" "''02''" "planned_world 1" "''/d''"]
      planned_world_fresh by blast
  then have h3: "download_all sample_env sample_response ''b/'' ''/d'' (month_plan ''2022'' ''02'')
         ([], [], []) (planned_world 1)
       = (fst (download_all sample_env sample_response ''b/'' ''/d'' (month_plan ''2022'' ''02'')
                 ([], [], []) (planned_world 1)),
          Inr ([], month_plan ''2022'' ''02'', []))"
    by (simp add: prod_eq_iff)
  note t = each_target_one_outcome_and_buckets_disjoint [OF sample_plan_once h2 h3]
  from t have "map fst (outcomes sample_env sample_response ''b/'' ''/d'' (month_plan ''2022'' ''02'')
                 (planned_world 1)) = month_plan ''2022'' ''02''"
    and "set [] \<inter> set (month_plan ''2022'' ''02'') = {}"
    by blast+
  with sample_plan_once h2 h3 show ?thesis
    by (intro conjI)
qed

text \<open>
  Claim C4 as stated fails for two kinds of run. With \<open>-m 02 02\<close> the plan holds every
  February path twice: the first one is fetched in the first pass (\<open>'complete'\<close>, not in
  update mode) and is found up to date in the second (\<open>'skip'\<close>), so it receives two
  classifications, and it resolves to \<open>'skip'\<close> while it sits in \<open>new\<close>. And when the
  server sends no content length, the loop is ended by \<open>KeyError\<close> on the first of the
  28 planned paths and no path receives any classification.
\<close>

theorem each_target_one_outcome_counterexample:
  "get_filelist sample_env ''2022'' [''02'', ''02''] ''/d'' empty_world
     = (planned_world 2, Inr (month_plan ''2022'' ''02'' @ month_plan ''2022'' ''02''))
   \<and> snd (download_all sample_env sample_response ''b/'' ''/d''
            (month_plan ''2022'' ''02'' @ month_plan ''2022'' ''02'') ([], [], []) (planned_world 2))
       = Inr ([], month_plan ''2022'' ''02'', [])
   \<and> outcomes sample_env sample_response ''b/'' ''/d''
         (month_plan ''2022'' ''02'' @ month_plan ''2022'' ''02'') (planned_world 2) ! 0
       = (hd (month_plan ''2022'' ''02''), False, ''complete'')
   \<and> outcomes sample_env sample_response ''b/'' ''/d''
         (month_plan ''2022'' ''02'' @ month_plan ''2022'' ''02'') (planned_world 2) ! 28
       = (hd (month_plan ''2022'' ''02''), True, ''skip'')
   \<and> hd (month_plan ''2022'' ''02'') \<in> set (month_plan ''2022'' ''02'')
   \<and> get_filelist chunked_env ''2022'' [''02''] ''/d'' empty_world
       = (planned_world 1, Inr (month_plan ''2022'' ''02''))
   \<and> length (month_plan ''2022'' ''02'') = 28
   \<and> snd (download_all chunked_env sample_response ''b/'' ''/d'' (month_plan ''2022'' ''02'')
            ([], [], []) (planned_world 1))
       = Inl (KeyError ''content-length'')
   \<and> outcomes chunked_env sample_response ''b/'' ''/d'' (month_plan ''2022'' ''02'')
         (planned_world 1) = []"
proof -
  let ?F = "month_plan ''2022'' ''02''"
  let ?run = "download_all sample_env sample_response ''b/'' ''/d'' ?F ([], [], []) (planned_world 2)"
  have ne: "?F \<noteq> []"
    by (rule month_plan_nonempty)
  have fresh: "\<forall>p\<in>set ?F. \<not> path_exists (planned_world 2) (local_path ''/d'' p)"
    using planned_world_fresh by blast
  note first = sample_fresh_run [OF distinct_month_plan fresh, of "''b/''" "[]" "[]" "[]"]
  from first have r1: "?run = (fst ?run, Inr ([], ?F, []))"
    by (simp add: prod_eq_iff)
  from first have o1: "outcomes sample_env sample_response ''b/'' ''/d'' ?F (planned_world 2)
      = map (\<lambda>p. (p, False, ''complete'')) ?F"
    by simp
  from first have "\<forall>p\<in>set ?F. path_exists (fst ?run) (local_path ''/d'' p)"
    by blast
  note second = sample_stocked_run [OF this, of "''b/''" "[]" ?F "[]"]
  note app = download_all_append [OF r1, of ?F]
  have run2: "snd (download_all sample_env sample_response ''b/'' ''/d'' (?F @ ?F) ([], [], [])
                    (planned_world 2)) = Inr ([], ?F, [])"
    using app second by simp
  have o2: "outcomes sample_env sample_response ''b/'' ''/d'' (?F @ ?F) (planned_world 2)
      = map (\<lambda>p. (p, False, ''complete'')) ?F @ map (\<lambda>p. (p, True, ''skip'')) ?F"
    using app second o1 by simp
  have n0: "outcomes sample_env sample_response ''b/'' ''/d'' (?F @ ?F) (planned_world 2) ! 0
      = (hd ?F, False, ''complete'')"
    using ne by (simp add: o2 nth_append hd_conv_nth length_feb)
  have n28: "outcomes sample_env sample_response ''b/'' ''/d'' (?F @ ?F) (planned_world 2) ! 28
      = (hd ?F, True, ''skip'')"
    using ne by (simp add: o2 nth_append hd_conv_nth length_feb)
  have mem: "hd ?F \<in> set ?F"
    using ne by (rule hd_in_set)
  have "get_filelist_loop chunked_env ''2022'' ''/d'' [''02''] [] empty_world
     = get_filelist_loop chunked_env ''2022'' ''/d'' [] ([] @ ?F)
         (record_event (MakeDirs (''/d'' @ ''/v1.0/30min/8km/'' @ ''2022'' @ ''/'' @ ''02'' @ ''/''))
            (empty_world\<lparr>dirs := insert (''/d'' @ ''/v1.0/30min/8km/'' @ ''2022'' @ ''/'' @ ''02'' @ ''/'')
               (dirs empty_world)\<rparr>))"
    using valid_month_int [OF valid_02]
    by (intro get_filelist_loop_step [OF valid_year_int [OF valid_2022]])
       (auto simp: chunked_env_def sample_env_def)
  then have cplan: "get_filelist chunked_env ''2022'' [''02''] ''/d'' empty_world = (planned_world 1, Inr ?F)"
    by (simp add: get_filelist_def planned_world_def record_event_def empty_world_def
             del: get_filelist_loop.simps(2))
  obtain p rest where F: "?F = p # rest"
    using ne by (cases ?F) auto
  have c1: "snd (download_all chunked_env sample_response ''b/'' ''/d'' ?F ([], [], []) (planned_world 1))
      = Inl (KeyError ''content-length'')"
    unfolding F by (simp add: chunked_process)
  have c2: "outcomes chunked_env sample_response ''b/'' ''/d'' ?F (planned_world 1) = []"
    unfolding F by (simp add: chunked_process)
  from sample_plan_twice run2 n0 n28 mem cplan length_feb c1 c2 show ?thesis
    by (intro conjI)
qed

section \<open>The loop inside \<open>main\<close>\<close>

text \<open>
  How the statements about the plan and the loop bear on a whole run: \<open>main\<close> reaches the
  summary exactly through a successful login, a plan and a loop that ends normally, with
  the data directory and base URL it computes; and an exception that ends the loop ends
  \<open>main\<close> in the same world, the summary not having been recorded.
\<close>

lemma main_reaches_summary:
  assumes "main en a w = (w', Inr ())"
  defines "mns \<equiv> (case arg_month a of None \<Rightarrow> map fmt_2d [1..12] | Some ms \<Rightarrow> ms)"
      and "data_dir \<equiv> (case environ en ''AUSREFDIR'' of
                          None \<Rightarrow> ''/g/data/ia39/aus-ref-clim-data-nci'' | Some d \<Rightarrow> d)
                       @ ''/cmorph/data''"
  shows "\<exists>w0 w1 ret w2 flist w3 updated new error.
           authenticate en (arg_user a) w0 = (w1, Inr ret)
         \<and> get_filelist en (arg_year a) mns data_dir w1 = (w2, Inr flist)
         \<and> download_all en ret ''https://rda.ucar.edu/data/ds502.2/'' data_dir flist ([], [], []) w2
             = (w3, Inr (updated, new, error))
         \<and> w' = print_summary updated new error w3"
proof -
  let ?w0 = "log_info (''Updated on '' @ today en @ '' by ''
                @ (case environ en ''USER'' of None \<Rightarrow> ''None'' | Some u \<Rightarrow> u)) w"
  from assms(1) obtain w1 ret w2 flist w3 updated new error where
      "authenticate en (arg_user a) ?w0 = (w1, Inr ret)"
      "get_filelist en (arg_year a) mns data_dir w1 = (w2, Inr flist)"
      "download_all en ret ''https://rda.ucar.edu/data/ds502.2/'' data_dir flist ([], [], []) w2
         = (w3, Inr (updated, new, error))"
      "w' = print_summary updated new error w3"
    unfolding mns_def data_dir_def main_def Let_def
    by (auto split: prod.splits sum.splits)
  then show ?thesis
    by blast
qed

lemma main_stops_with_the_loop:
  assumes "authenticate en (arg_user a)
             (log_info (''Updated on '' @ today en @ '' by ''
                @ (case environ en ''USER'' of None \<Rightarrow> ''None'' | Some u \<Rightarrow> u)) w) = (w1, Inr ret)"
      and "get_filelist en (arg_year a)
             (case arg_month a of None \<Rightarrow> map fmt_2d [1..12] | Some ms \<Rightarrow> ms)
             ((case environ en ''AUSREFDIR'' of
                 None \<Rightarrow> ''/g/data/ia39/aus-ref-clim-data-nci'' | Some d \<Rightarrow> d) @ ''/cmorph/data'') w1
           = (w2, Inr flist)"
      and "download_all en ret ''https://rda.ucar.edu/data/ds502.2/''
             ((case environ en ''AUSREFDIR'' of
                 None \<Rightarrow> ''/g/data/ia39/aus-ref-clim-data-nci'' | Some d \<Rightarrow> d) @ ''/cmorph/data'')
             flist ([], [], []) w2 = (w3, Inl e)"
  shows "main en a w = (w3, Inl e)"
  using assms by (simp add: main_def Let_def)

end
